theory Spec2Isabelle
  imports Complex_Main
begin

section \<open>JavaScript values\<close>

text \<open>
  Cell values delivered by the spreadsheet reader and the fields of the row objects built
  from them are JavaScript values. A finite number is a real (both zeros are the real 0),
  \<open>NaN\<close> is a value of its own, and an object carries the identity that \<open>Map\<close> keys
  compare together with its \<open>result\<close> property, when it has one (the formula cells of
  the reader). No object met here has a \<open>replace\<close> method.
\<close>

datatype jsval =
    JUndefined
  | JNull
  | JBool bool
  | JNum real
  | JNaN
  | JStr string
  | JObj nat "jsval option"

text \<open>\<open>!v\<close> is \<open>\<not> truthy v\<close>.\<close>

fun truthy :: "jsval \<Rightarrow> bool" where
  "truthy JUndefined = False"
| "truthy JNull = False"
| "truthy (JBool b) = b"
| "truthy (JNum x) = (x \<noteq> 0)"
| "truthy JNaN = False"
| "truthy (JStr s) = (s \<noteq> [])"
| "truthy (JObj _ _) = True"

text \<open>\<open>a || b\<close>.\<close>

definition js_or :: "jsval \<Rightarrow> jsval \<Rightarrow> jsval" where
  "js_or a b = (if truthy a then a else b)"

text \<open>
  \<open>String.prototype.trim\<close> removes white space at both ends. Strings are lists of 8-bit
  characters here, so the white space is tab, line feed, vertical tab, form feed, carriage
  return, space and the no-break space.
\<close>

definition is_space :: "char \<Rightarrow> bool" where
  "is_space c = (of_char c \<in> {9, 10, 11, 12, 13, 32, 160 :: nat})"

definition js_trim :: "string \<Rightarrow> string" where
  "js_trim s = rev (dropWhile is_space (rev (dropWhile is_space s)))"

text \<open>The class \<open>\d\<close> of a regular expression without the unicode flag.\<close>

definition is_digit :: "char \<Rightarrow> bool" where
  "is_digit c = (c \<in> set ''0123456789'')"

text \<open>\<open>s.startsWith(p)\<close> and \<open>s.substring(n)\<close>.\<close>

definition startsWith :: "string \<Rightarrow> string \<Rightarrow> bool" where
  "startsWith s p = (take (length p) s = p)"

definition substring :: "string \<Rightarrow> nat \<Rightarrow> string" where
  "substring s n = drop n s"

section \<open>Errors\<close>

text \<open>
  Every exception a per-order transaction can raise: the type error of a method call on a
  value that has no such method, the two \<open>throw new Error\<close> of the service, the
  validation error of a model whose \<open>allowNull: false\<close> column receives no value, and any
  other rejection of a storage call.
\<close>

datatype error =
    TypeError
  | MissingEmail
  | MissingProductId
  | NotNullViolation
  | StorageError

section \<open>Phone normalization (importService.js, normalizePhone)\<close>

text \<open>
  \<open>phoneNumber.replace(/\D/g, '')\<close> exists on strings only: a truthy value of another
  type raises a type error.
\<close>

definition normalizePhone :: "jsval \<Rightarrow> error + string" where
  "normalizePhone phoneNumber =
     (if \<not> truthy phoneNumber then Inr []
      else case phoneNumber of
        JStr s \<Rightarrow>
          (let cleaned = filter is_digit s
           in if startsWith cleaned ''91'' \<and> length cleaned > 10
              then Inr (substring cleaned 2) else Inr cleaned)
      | _ \<Rightarrow> Inl TypeError)"


section \<open>The reconciliation script (data_reconciliation, performDeltaAnalysis)\<close>

text \<open>
  A JavaScript \<open>Set\<close> keeps its elements in insertion order without repetition: a list
  without duplicates. \<open>new Set(xs)\<close> adds the elements of \<open>xs\<close> one by one.
\<close>

definition set_add :: "'a \<Rightarrow> 'a list \<Rightarrow> 'a list" where
  "set_add x xs = (if x \<in> set xs then xs else xs @ [x])"

definition set_delete :: "'a \<Rightarrow> 'a list \<Rightarrow> 'a list" where
  "set_delete x xs = filter (\<lambda>y. y \<noteq> x) xs"

definition new_Set :: "'a list \<Rightarrow> 'a list" where
  "new_Set xs = fold set_add xs []"

text \<open>
  \<open>getImportedBillNumbersFromDB\<close>: the bill numbers of the orders table (a string
  column), trimmed, as a set; the empty set when the query is rejected (\<open>None\<close>).
\<close>

definition getImportedBillNumbersFromDB :: "string list option \<Rightarrow> string list" where
  "getImportedBillNumbersFromDB table =
     (case table of None \<Rightarrow> [] | Some bills \<Rightarrow> new_Set (map js_trim bills))"

record audit =
  csvBillNumbers :: "string list"
  importedDbBills :: "string list"
  missingInDb :: "string list"
  extraInDb :: "string list"
  matched :: nat

text \<open>
  The body of the loop over the parsed records. A record is given by its
  \<open>Invoice Number\<close> property, \<open>None\<close> when the record has no such column; the parser
  delivers strings.
\<close>

definition recordBillNumber :: "string option \<Rightarrow> string option" where
  "recordBillNumber invoice =
     (case invoice of None \<Rightarrow> None | Some s \<Rightarrow> if s \<noteq> [] then Some (js_trim s) else None)"

definition audit_record :: "string option \<Rightarrow> audit \<Rightarrow> audit" where
  "audit_record invoice a =
     (case recordBillNumber invoice of
        None \<Rightarrow> a
      | Some billNumber \<Rightarrow>
          if billNumber = [] then a
          else if billNumber \<in> set (csvBillNumbers a) then a
          else let a1 = a\<lparr>csvBillNumbers := set_add billNumber (csvBillNumbers a)\<rparr>
               in if billNumber \<in> set (importedDbBills a1)
                  then a1\<lparr>matched := matched a1 + 1,
                          importedDbBills := set_delete billNumber (importedDbBills a1)\<rparr>
                  else a1\<lparr>missingInDb := missingInDb a1 @ [billNumber]\<rparr>)"

text \<open>
  \<open>performDeltaAnalysis\<close> returns at once when the file does not exist (\<open>None\<close> for the
  records); otherwise it classifies every record and then reads what is left of the
  persisted set as the extra entries.
\<close>

definition performDeltaAnalysis ::
  "string list option \<Rightarrow> string option list option \<Rightarrow> audit option" where
  "performDeltaAnalysis table csv =
     (case csv of
        None \<Rightarrow> None
      | Some records \<Rightarrow>
          (let a0 = \<lparr>csvBillNumbers = [],
                     importedDbBills = getImportedBillNumbersFromDB table,
                     missingInDb = [], extraInDb = [], matched = 0\<rparr>;
               a = fold audit_record records a0
           in Some (a\<lparr>extraInDb := importedDbBills a\<rparr>)))"

text \<open>
  The words of the specification: the first occurrences of the elements of a list, in
  order, and the source bill numbers that take part (trimmed, non-empty).
\<close>

primrec firsts :: "'a list \<Rightarrow> 'a list" where
  "firsts [] = []"
| "firsts (x # xs) = x # filter (\<lambda>y. y \<noteq> x) (firsts xs)"

definition sourceBills :: "string option list \<Rightarrow> string list" where
  "sourceBills records =
     filter (\<lambda>b. b \<noteq> []) (map js_trim (filter (\<lambda>s. s \<noteq> []) (List.map_filter id records)))"

text \<open>The bill number a record contributes, as a list of length at most one.\<close>

definition bill_of :: "string option \<Rightarrow> string list" where
  "bill_of r = (case recordBillNumber r of None \<Rightarrow> [] | Some b \<Rightarrow> if b = [] then [] else [b])"

section \<open>What the program takes from outside\<close>

text \<open>
  Two things are not code of the service and are parameters of the model. The first is
  how the JavaScript runtime renders a value that is not a string (\<open>toString\<close> of a
  number, a date, a rich-text object). The second is the storage engine. It runs one
  transaction at a time and may reject any call; which calls it rejects is given by
  \<open>rejects\<close>, a call being named by the operation and the key it asks for. How it
  compares the value written to a character column (the bill number of an order, the
  external identifier of a product) with the value of a query is given by \<open>keyMatches\<close>,
  the written value first: a character column matches the number 1001 with the text 1001,
  so this is not the equality of JavaScript. Opening, committing and rolling back a
  transaction are taken not to fail.
\<close>

datatype db_call =
    FindCustomerByPhone string
  | FindCustomerByEmail string
  | UpdateCustomer nat
  | CreateCustomer string
  | FindOrder jsval
  | CreateOrder jsval
  | FindProduct jsval
  | CreateProduct jsval
  | BulkCreateItems nat

record engine =
  render :: "jsval \<Rightarrow> string"
  rejects :: "db_call \<Rightarrow> bool"
  keyMatches :: "jsval \<Rightarrow> jsval \<Rightarrow> bool"

definition js_toString :: "engine \<Rightarrow> jsval \<Rightarrow> string" where
  "js_toString E v = (case v of JStr s \<Rightarrow> s | _ \<Rightarrow> render E v)"

definition andThen :: "error + 'a \<Rightarrow> ('a \<Rightarrow> error + 'b) \<Rightarrow> error + 'b" where
  "andThen m f = (case m of Inl e \<Rightarrow> Inl e | Inr x \<Rightarrow> f x)"

definition call :: "engine \<Rightarrow> db_call \<Rightarrow> 'a \<Rightarrow> error + 'a" where
  "call E c result = (if rejects E c then Inl StorageError else Inr result)"

section \<open>Grouping rows into orders (importService.js, parseFileAndGroupOrders)\<close>

text \<open>
  The worksheet as the reader presents it: the values of the header row by column number
  (\<open>undefined\<close> where there is none) and the rows that \<open>eachRow\<close> visits, each with its
  number, its \<open>hasValues\<close> flag and the cells that \<open>eachCell\<close> visits.
\<close>

record sheet_row =
  rowNumber :: nat
  hasValues :: bool
  cells :: "(nat \<times> jsval) list"

record worksheet =
  headerValues :: "nat \<Rightarrow> jsval"
  sheetRows :: "sheet_row list"

text \<open>
  \<open>COLUMN_MAP\<close>, the table from column labels to property names. (A label that names a
  property every object inherits, such as \<open>constructor\<close>, makes the code write a property
  named by the text of that inherited value; no code reads such a property, and the model
  leaves it out.)
\<close>

definition COLUMN_MAP :: "(string \<times> string) list" where
  "COLUMN_MAP =
    [(''Bill Number'', ''bill_number''),
     (''Order Number'', ''order_number''),
     (''Order Date'', ''order_date''),
     (''Customer User ID'', ''customer_user_id''),
     (''Customer Username'', ''customer_username''),
     (''Party Name'', ''party_name''),
     (''Company (Billing)'', ''company_billing''),
     (''GST Number'', ''gst_number''),
     (''State Name'', ''state_name''),
     (''Address'', ''address''),
     (''Pincode'', ''pincode''),
     (''Country'', ''country''),
     (''Email'', ''email''),
     (''Phone'', ''phone''),
     (''Item #'', ''item_hash''),
     (''Product Id'', ''product_id''),
     (''Item Name'', ''item_name''),
     (''HSN Code'', ''hsn_code''),
     (''GST Rate'', ''gst_rate''),
     (''Quantity'', ''quantity''),
     (''Item Cost'', ''item_cost''),
     (''Order Line Tax'', ''order_line_tax''),
     (''Cart Discount Amount'', ''cart_discount_amount''),
     (''Order Subtotal Amount'', ''order_subtotal_amount''),
     (''Order Total Tax Amount'', ''order_total_tax_amount''),
     (''Order Total Amount'', ''order_total_amount''),
     (''Payment Method'', ''payment_method''),
     (''Transaction ID'', ''transaction_id'')]"

text \<open>\<open>headers[colNumber]\<close>: \<open>None\<close> stands for \<open>null\<close> and \<open>undefined\<close>.\<close>

definition headers :: "engine \<Rightarrow> worksheet \<Rightarrow> nat \<Rightarrow> string option" where
  "headers E ws colNumber =
     (let v = headerValues ws colNumber
      in if truthy v then Some (js_trim (js_toString E v)) else None)"

text \<open>
  A row object maps property names to values; reading a property that was never written
  gives \<open>undefined\<close>.
\<close>

type_synonym rowdata = "string \<rightharpoonup> jsval"

definition getProp :: "rowdata \<Rightarrow> string \<Rightarrow> jsval" where
  "getProp obj k = (case obj k of None \<Rightarrow> JUndefined | Some v \<Rightarrow> v)"

text \<open>A formula cell is replaced by its \<open>result\<close> when it has one.\<close>

definition cellValue :: "jsval \<Rightarrow> jsval" where
  "cellValue v =
     (case v of
        JObj i (Some r) \<Rightarrow> if r \<noteq> JUndefined then r else v
      | _ \<Rightarrow> v)"

definition eachCell :: "engine \<Rightarrow> worksheet \<Rightarrow> nat \<times> jsval \<Rightarrow> rowdata \<Rightarrow> rowdata" where
  "eachCell E ws cell rowData =
     (case headers E ws (fst cell) of
        None \<Rightarrow> rowData
      | Some headerKey \<Rightarrow>
          if headerKey = [] then rowData
          else case map_of COLUMN_MAP headerKey of
                 None \<Rightarrow> rowData
               | Some dbKey \<Rightarrow> rowData(dbKey \<mapsto> cellValue (snd cell)))"

definition rowDataOf :: "engine \<Rightarrow> worksheet \<Rightarrow> sheet_row \<Rightarrow> rowdata" where
  "rowDataOf E ws row = fold (eachCell E ws) (cells row) Map.empty"

record item =
  product_id :: jsval
  item_hash :: jsval
  item_name :: jsval
  hsn_code :: jsval
  gst_rate :: jsval
  quantity :: jsval
  unit_cost_at_sale :: jsval
  order_line_tax :: jsval

definition itemOf :: "rowdata \<Rightarrow> item" where
  "itemOf rowData =
     \<lparr>product_id = js_or (getProp rowData ''product_id'') (getProp rowData ''item_hash''),
      item_hash = getProp rowData ''item_hash'',
      item_name = getProp rowData ''item_name'',
      hsn_code = getProp rowData ''hsn_code'',
      gst_rate = getProp rowData ''gst_rate'',
      quantity = getProp rowData ''quantity'',
      unit_cost_at_sale = getProp rowData ''item_cost'',
      order_line_tax = getProp rowData ''order_line_tax''\<rparr>"

text \<open>An order aggregate: the properties of the first row of its bill number, and \<open>items\<close>.\<close>

record aggregate =
  orderFields :: rowdata
  items :: "item list"

text \<open>
  \<open>ordersMap\<close> is a \<open>Map\<close>: its entries in insertion order, a key at most once. The
  warnings written to the console are kept as the list of the row numbers they name.
\<close>

record grouping =
  ordersMap :: "(jsval \<times> aggregate) list"
  warnings :: "nat list"

definition map_has :: "(jsval \<times> aggregate) list \<Rightarrow> jsval \<Rightarrow> bool" where
  "map_has m k = (k \<in> set (map fst m))"

definition pushItem :: "jsval \<Rightarrow> item \<Rightarrow> (jsval \<times> aggregate) list \<Rightarrow> (jsval \<times> aggregate) list" where
  "pushItem k it m =
     map (\<lambda>(k', a). if k' = k then (k', a\<lparr>items := items a @ [it]\<rparr>) else (k', a)) m"

text \<open>The test that drops a row: \<open>!billNumber || !rowData.order_total_amount\<close>.\<close>

definition missingCritical :: "rowdata \<Rightarrow> bool" where
  "missingCritical rowData =
     (\<not> truthy (getProp rowData ''bill_number'') \<or> \<not> truthy (getProp rowData ''order_total_amount''))"

definition eachRow :: "engine \<Rightarrow> worksheet \<Rightarrow> sheet_row \<Rightarrow> grouping \<Rightarrow> grouping" where
  "eachRow E ws row g =
     (if rowNumber row = 1 \<or> hasValues row = False then g
      else let rowData = rowDataOf E ws row;
               billNumber = getProp rowData ''bill_number''
           in if missingCritical rowData
              then g\<lparr>warnings := warnings g @ [rowNumber row]\<rparr>
              else let m = (if \<not> map_has (ordersMap g) billNumber
                            then ordersMap g @ [(billNumber, \<lparr>orderFields = rowData, items = []\<rparr>)]
                            else ordersMap g)
                   in g\<lparr>ordersMap := pushItem billNumber (itemOf rowData) m\<rparr>)"

definition groupRows :: "engine \<Rightarrow> worksheet \<Rightarrow> grouping" where
  "groupRows E ws = fold (eachRow E ws) (sheetRows ws) \<lparr>ordersMap = [], warnings = []\<rparr>"

definition parseFileAndGroupOrders :: "engine \<Rightarrow> worksheet \<Rightarrow> aggregate list" where
  "parseFileAndGroupOrders E ws = map snd (ordersMap (groupRows E ws))"

text \<open>
  Names for the statements about grouping: the rows that reach the \<open>Map\<close>, the bill number
  of a row and of an aggregate.
\<close>

definition survives :: "engine \<Rightarrow> worksheet \<Rightarrow> sheet_row \<Rightarrow> bool" where
  "survives E ws row =
     (rowNumber row \<noteq> 1 \<and> hasValues row \<and> \<not> missingCritical (rowDataOf E ws row))"

definition rowBill :: "engine \<Rightarrow> worksheet \<Rightarrow> sheet_row \<Rightarrow> jsval" where
  "rowBill E ws row = getProp (rowDataOf E ws row) ''bill_number''"

definition attr :: "aggregate \<Rightarrow> string \<Rightarrow> jsval" where
  "attr orderData k = getProp (orderFields orderData) k"

text \<open>
  The words of the specification for one bill number: the aggregate that the rows of a
  list with this bill number make up, with the properties of the first of them and the line
  items of all of them in the order met.
\<close>

definition aggregateOf :: "engine \<Rightarrow> worksheet \<Rightarrow> sheet_row list \<Rightarrow> jsval \<Rightarrow> aggregate" where
  "aggregateOf E ws rs b =
     \<lparr>orderFields =
        (case find (\<lambda>r. rowBill E ws r = b) rs of
           None \<Rightarrow> Map.empty
         | Some r \<Rightarrow> rowDataOf E ws r),
      items = map (\<lambda>r. itemOf (rowDataOf E ws r)) (filter (\<lambda>r. rowBill E ws r = b) rs)\<rparr>"

text \<open>The rows for which a warning is written.\<close>

definition warned :: "engine \<Rightarrow> worksheet \<Rightarrow> sheet_row \<Rightarrow> bool" where
  "warned E ws row =
     (rowNumber row \<noteq> 1 \<and> hasValues row \<and> missingCritical (rowDataOf E ws row))"

section \<open>The store (models Customer, Order, OrderItem, Product)\<close>

text \<open>
  The four tables, each a list of rows in insertion order. Only the columns that a lookup
  reads, that link rows or that a merge writes are kept: the amounts and the date of an
  order and the quantity, cost and tax columns of an item come from \<open>parseFloat\<close>,
  \<open>parseInt\<close> and \<open>new Date\<close>, which never raise, the payment columns are copied as
  they are, and the import never reads any of them back. Columns that would share a name
  with a property of a line item carry the prefix of their table. A generated key is a
  label that links rows; a rollback gives back the whole store, so a key of a rolled-back
  row can be given again.
\<close>

text \<open>
  The two JSON columns of a customer. The import writes \<open>JSON.stringify(list)\<close> to them,
  a JavaScript string, which the column keeps as a JSON string (\<open>JsonText\<close>, given by the
  list whose text it is); a row that came from elsewhere may hold a JSON array
  (\<open>JsonArray\<close>). Reading the column back, the code parses a string and takes an array as
  it is; parsing the text of \<open>JSON.stringify\<close> gives the list back.
\<close>

datatype json_col = JsonArray "string list" | JsonText "string list"

fun parsedList :: "json_col \<Rightarrow> string list" where
  "parsedList (JsonArray xs) = xs"
| "parsedList (JsonText xs) = xs"

text \<open>The text of \<open>JSON.stringify\<close> for a list of strings.\<close>

definition hexDigit :: "nat \<Rightarrow> char" where
  "hexDigit n = ''0123456789abcdef'' ! n"

definition jsonEscape :: "char \<Rightarrow> string" where
  "jsonEscape c =
     (let n = (of_char c :: nat)
      in if n = 34 then [char_of (92 :: nat), c]
         else if n = 92 then [c, c]
         else if n = 8 then [char_of (92 :: nat), CHR ''b'']
         else if n = 9 then [char_of (92 :: nat), CHR ''t'']
         else if n = 10 then [char_of (92 :: nat), CHR ''n'']
         else if n = 12 then [char_of (92 :: nat), CHR ''f'']
         else if n = 13 then [char_of (92 :: nat), CHR ''r'']
         else if n < 32
         then [char_of (92 :: nat), CHR ''u'', CHR ''0'', CHR ''0'',
               hexDigit (n div 16), hexDigit (n mod 16)]
         else [c])"

definition jsonQuote :: "string \<Rightarrow> string" where
  "jsonQuote s = [char_of (34 :: nat)] @ concat (map jsonEscape s) @ [char_of (34 :: nat)]"

fun joinComma :: "string list \<Rightarrow> string" where
  "joinComma [] = []"
| "joinComma [x] = x"
| "joinComma (x # y # ys) = x @ '','' @ joinComma (y # ys)"

definition JSON_stringify :: "string list \<Rightarrow> string" where
  "JSON_stringify xs = ''['' @ joinComma (map jsonQuote xs) @ '']''"

text \<open>
  \<open>JSON_CONTAINS(column, '"phone"')\<close>: the candidate is the JSON string with the text of
  the phone. An array contains it when one of its elements is this text; a JSON string
  contains it only when it is this text itself.
\<close>

fun JSON_CONTAINS :: "json_col \<Rightarrow> string \<Rightarrow> bool" where
  "JSON_CONTAINS (JsonArray xs) phone = (phone \<in> set xs)"
| "JSON_CONTAINS (JsonText xs) phone = (JSON_stringify xs = phone)"

record customer =
  cid :: nat
  customer_user_id :: jsval
  customer_username :: jsval
  email :: string
  all_emails :: json_col
  all_phones :: json_col
  party_name :: jsval
  company_billing :: jsval
  gst_number :: jsval
  state_name :: jsval
  address :: jsval
  pincode :: jsval
  country :: jsval

record order_row =
  oid :: nat
  bill_number :: jsval
  order_number :: jsval
  customerId :: nat

record order_item_row =
  oi_item_hash :: jsval
  oi_orderId :: nat
  oi_productId :: nat

record product_row =
  pid :: nat
  p_product_id :: jsval
  p_item_name :: jsval
  p_hsn_code :: jsval

record store =
  customers :: "customer list"
  orders :: "order_row list"
  order_items :: "order_item_row list"
  products :: "product_row list"

text \<open>A generated key: larger than every key of the table.\<close>

definition fresh_id :: "nat list \<Rightarrow> nat" where
  "fresh_id ids = Suc (fold max ids 0)"

section \<open>Customer resolution (importService.js, findOrCreateCustomer)\<close>

text \<open>
  The two searches. \<open>findOne\<close> gives the first row that matches. The phone search runs
  only for a non-empty phone, the email search only when no customer was found and the
  email is non-empty.
\<close>

definition findCustomer :: "engine \<Rightarrow> store \<Rightarrow> string \<Rightarrow> string \<Rightarrow> error + customer option" where
  "findCustomer E s phone mail =
     andThen
       (if phone \<noteq> []
        then call E (FindCustomerByPhone phone)
               (find (\<lambda>c. JSON_CONTAINS (all_phones c) phone) (customers s))
        else Inr None)
       (\<lambda>byPhone.
          if byPhone = None \<and> mail \<noteq> []
          then call E (FindCustomerByEmail mail) (find (\<lambda>c. email c = mail) (customers s))
          else Inr byPhone)"

text \<open>
  \<open>customerUpdateFields\<close>, as the assignment it makes to a row: the two lists, as the
  text of \<open>JSON.stringify\<close>, only when a value was pushed, the eight descriptive columns
  always. It holds no \<open>email\<close>.
\<close>

definition customerUpdateFields ::
  "aggregate \<Rightarrow> customer \<Rightarrow> string \<Rightarrow> string \<Rightarrow> customer \<Rightarrow> customer" where
  "customerUpdateFields orderData found phone mail r =
     (let phones = parsedList (all_phones found);
          emails = parsedList (all_emails found);
          r1 = (if phone \<noteq> [] \<and> phone \<notin> set phones
                then r\<lparr>all_phones := JsonText (phones @ [phone])\<rparr> else r);
          r2 = (if mail \<noteq> [] \<and> mail \<notin> set emails
                then r1\<lparr>all_emails := JsonText (emails @ [mail])\<rparr> else r1)
      in r2\<lparr>party_name := js_or (attr orderData ''party_name'') (party_name found),
             company_billing := js_or (attr orderData ''company_billing'') (company_billing found),
             gst_number := js_or (attr orderData ''gst_number'') (gst_number found),
             address := js_or (attr orderData ''address'') (address found),
             pincode := js_or (attr orderData ''pincode'') (pincode found),
             state_name := js_or (attr orderData ''state_name'') (state_name found),
             customer_user_id := js_or (attr orderData ''customer_user_id'') (customer_user_id found),
             customer_username :=
               js_or (attr orderData ''customer_username'') (customer_username found)\<rparr>)"

text \<open>\<open>customer.update\<close>: the assignment reaches the rows with the key of the instance.\<close>

definition updateCustomer ::
  "engine \<Rightarrow> store \<Rightarrow> customer \<Rightarrow> (customer \<Rightarrow> customer) \<Rightarrow> error + customer \<times> store" where
  "updateCustomer E s found assign =
     call E (UpdateCustomer (cid found))
       (assign found,
        s\<lparr>customers := map (\<lambda>r. if cid r = cid found then assign r else r) (customers s)\<rparr>)"

definition newCustomerData :: "store \<Rightarrow> aggregate \<Rightarrow> string \<Rightarrow> string \<Rightarrow> customer" where
  "newCustomerData s orderData phone mail =
     \<lparr>cid = fresh_id (map cid (customers s)),
      customer_user_id = attr orderData ''customer_user_id'',
      customer_username = attr orderData ''customer_username'',
      email = mail,
      all_emails = JsonText (if mail \<noteq> [] then [mail] else []),
      all_phones = JsonText (if phone \<noteq> [] then [phone] else []),
      party_name = js_or (attr orderData ''party_name'') (JStr ''N/A''),
      company_billing = js_or (attr orderData ''company_billing'') (JStr ''N/A''),
      gst_number = attr orderData ''gst_number'',
      state_name = js_or (attr orderData ''state_name'') (JStr ''N/A''),
      address = js_or (attr orderData ''address'') (JStr ''N/A''),
      pincode = js_or (attr orderData ''pincode'') (JStr ''N/A''),
      country = js_or (attr orderData ''country'') (JStr ''N/A'')\<rparr>"

definition createCustomer ::
  "engine \<Rightarrow> store \<Rightarrow> aggregate \<Rightarrow> string \<Rightarrow> string \<Rightarrow> error + customer \<times> store" where
  "createCustomer E s orderData phone mail =
     (if mail = [] then Inl MissingEmail
      else let c = newCustomerData s orderData phone mail
           in call E (CreateCustomer mail) (c, s\<lparr>customers := customers s @ [c]\<rparr>))"

text \<open>\<open>(orderData.email || '').toString().trim()\<close>\<close>

definition orderEmail :: "engine \<Rightarrow> aggregate \<Rightarrow> string" where
  "orderEmail E orderData = js_trim (js_toString E (js_or (attr orderData ''email'') (JStr [])))"

definition findOrCreateCustomer ::
  "engine \<Rightarrow> store \<Rightarrow> aggregate \<Rightarrow> error + customer \<times> store" where
  "findOrCreateCustomer E s orderData =
     andThen (normalizePhone (attr orderData ''phone''))
       (\<lambda>phone.
          let mail = orderEmail E orderData
          in andThen (findCustomer E s phone mail)
               (\<lambda>result.
                  case result of
                    Some found \<Rightarrow>
                      updateCustomer E s found (customerUpdateFields orderData found phone mail)
                  | None \<Rightarrow> createCustomer E s orderData phone mail))"

section \<open>Product resolution (importService.js, findOrCreateProduct)\<close>

definition findOrCreateProduct ::
  "engine \<Rightarrow> store \<Rightarrow> item \<Rightarrow> error + product_row \<times> store" where
  "findOrCreateProduct E s itemData =
     (let masterProductId = product_id itemData
      in if \<not> truthy masterProductId then Inl MissingProductId
         else andThen
                (call E (FindProduct masterProductId)
                   (find (\<lambda>p. keyMatches E (p_product_id p) masterProductId) (products s)))
                (\<lambda>result.
                   case result of
                     Some product \<Rightarrow> Inr (product, s)
                   | None \<Rightarrow>
                       (let product =
                              \<lparr>pid = fresh_id (map pid (products s)),
                               p_product_id = masterProductId,
                               p_item_name = js_or (item_name itemData) (JStr ''Unknown Product''),
                               p_hsn_code = hsn_code itemData\<rparr>
                        in call E (CreateProduct masterProductId)
                             (product, s\<lparr>products := products s @ [product]\<rparr>))))"

section \<open>The per-order transaction and the run (importService.js, processOrderFile)\<close>

text \<open>
  \<open>Order.create\<close>. The model of an order refuses a row without order number
  (\<open>allowNull: false\<close>); the other required columns always receive a value.
\<close>

definition createOrder ::
  "engine \<Rightarrow> store \<Rightarrow> aggregate \<Rightarrow> customer \<Rightarrow> error + order_row \<times> store" where
  "createOrder E s orderData c =
     (if attr orderData ''order_number'' = JUndefined \<or> attr orderData ''order_number'' = JNull
      then Inl NotNullViolation
      else let newOrder =
                 \<lparr>oid = fresh_id (map oid (orders s)),
                  bill_number = attr orderData ''bill_number'',
                  order_number = attr orderData ''order_number'',
                  customerId = cid c\<rparr>
           in call E (CreateOrder (attr orderData ''bill_number''))
                (newOrder, s\<lparr>orders := orders s @ [newOrder]\<rparr>))"

text \<open>The loop over the line items: resolve the product, stage the item row.\<close>

fun stageItems ::
  "engine \<Rightarrow> store \<Rightarrow> nat \<Rightarrow> item list \<Rightarrow> error + order_item_row list \<times> store" where
  "stageItems E s orderId [] = Inr ([], s)"
| "stageItems E s orderId (itemData # rest) =
     andThen (findOrCreateProduct E s itemData)
       (\<lambda>(product, s1).
          andThen (stageItems E s1 orderId rest)
            (\<lambda>(staged, s2).
               Inr (\<lparr>oi_item_hash =
                        js_or (item_hash itemData) (js_or (product_id itemData) (JStr ''N/A'')),
                      oi_orderId = orderId,
                      oi_productId = pid product\<rparr> # staged, s2)))"

definition bulkCreate :: "engine \<Rightarrow> store \<Rightarrow> nat \<Rightarrow> order_item_row list \<Rightarrow> error + store" where
  "bulkCreate E s orderId itemsToInsert =
     (if itemsToInsert \<noteq> []
      then call E (BulkCreateItems orderId) (s\<lparr>order_items := order_items s @ itemsToInsert\<rparr>)
      else Inr s)"

text \<open>
  How the body of the \<open>try\<close> block ends when it raises nothing: with \<open>t.commit()\<close> or,
  for a bill number already persisted, with \<open>t.rollback()\<close>. Both carry the store as the
  transaction has written it so far.
\<close>

datatype tx_end = Committed store | RolledBack store

text \<open>\<open>Order.findOne\<close> on the bill number: the first order row the engine matches.\<close>

definition findOrder :: "engine \<Rightarrow> store \<Rightarrow> jsval \<Rightarrow> order_row option" where
  "findOrder E s b = find (\<lambda>r. keyMatches E (bill_number r) b) (orders s)"

definition orderTransaction :: "engine \<Rightarrow> store \<Rightarrow> aggregate \<Rightarrow> error + tx_end" where
  "orderTransaction E s orderData =
     andThen (findOrCreateCustomer E s orderData)
       (\<lambda>(c, s1).
          andThen
            (call E (FindOrder (attr orderData ''bill_number''))
               (findOrder E s1 (attr orderData ''bill_number'')))
            (\<lambda>existingOrder.
               case existingOrder of
                 Some _ \<Rightarrow> Inr (RolledBack s1)
               | None \<Rightarrow>
                   andThen (createOrder E s1 orderData c)
                     (\<lambda>(newOrder, s2).
                        andThen (stageItems E s2 (oid newOrder) (items orderData))
                          (\<lambda>(itemsToInsert, s3).
                             andThen (bulkCreate E s3 (oid newOrder) itemsToInsert)
                               (\<lambda>s4. Inr (Committed s4))))))"

text \<open>
  The summary of a job, and the state of the loop over the aggregates: the committed
  store, the three local counters and the summary they are copied to.
\<close>

record summary =
  totalProcessed :: nat
  successfulInserts :: nat
  failedInserts :: nat
  skippedDuplicates :: nat

record run =
  db :: store
  nSuccessful :: nat
  nSkipped :: nat
  nFailed :: nat
  job :: summary

text \<open>
  One turn of the loop. A rollback leaves the committed store as it was; a commit replaces
  it by the store the transaction has written.
\<close>

definition processOrder :: "engine \<Rightarrow> aggregate \<Rightarrow> run \<Rightarrow> run" where
  "processOrder E orderData st =
     (case orderTransaction E (db st) orderData of
        Inr (Committed s') \<Rightarrow>
          st\<lparr>db := s', nSuccessful := nSuccessful st + 1,
             job := (job st)\<lparr>successfulInserts := nSuccessful st + 1\<rparr>\<rparr>
      | Inr (RolledBack _) \<Rightarrow>
          st\<lparr>nSkipped := nSkipped st + 1,
             job := (job st)\<lparr>skippedDuplicates := nSkipped st + 1\<rparr>\<rparr>
      | Inl _ \<Rightarrow>
          st\<lparr>nFailed := nFailed st + 1,
             job := (job st)\<lparr>failedInserts := nFailed st + 1\<rparr>\<rparr>)"

definition processOrders :: "engine \<Rightarrow> aggregate list \<Rightarrow> store \<Rightarrow> summary \<Rightarrow> run" where
  "processOrders E groupedOrders s jobSummary =
     fold (processOrder E) groupedOrders
       \<lparr>db = s, nSuccessful = 0, nSkipped = 0, nFailed = 0,
        job = jobSummary\<lparr>totalProcessed := length groupedOrders\<rparr>\<rparr>"

definition processOrderFile :: "engine \<Rightarrow> worksheet \<Rightarrow> store \<Rightarrow> summary \<Rightarrow> summary \<times> store" where
  "processOrderFile E ws s jobSummary =
     (let st = processOrders E (parseFileAndGroupOrders E ws) s jobSummary
      in (job st, db st))"

text \<open>The summary a job starts with (app.js, the import route).\<close>

definition initialSummary :: summary where
  "initialSummary =
     \<lparr>totalProcessed = 0, successfulInserts = 0, failedInserts = 0, skippedDuplicates = 0\<rparr>"

definition importOrders :: "engine \<Rightarrow> worksheet \<Rightarrow> store \<Rightarrow> summary \<times> store" where
  "importOrders E ws s = processOrderFile E ws s initialSummary"

text \<open>
  Names for the statements about runs: the primary keys of the customers are distinct; an
  order row carries a bill number; every phone column of the store holds what the import
  writes, the text of a list.
\<close>

definition distinctCustomers :: "store \<Rightarrow> bool" where
  "distinctCustomers s = distinct (map cid (customers s))"

definition persisted :: "store \<Rightarrow> jsval \<Rightarrow> bool" where
  "persisted s b = (b \<in> set (map bill_number (orders s)))"

fun isJsonText :: "json_col \<Rightarrow> bool" where
  "isJsonText (JsonText xs) = True"
| "isJsonText (JsonArray xs) = False"

definition phonesAsWritten :: "store \<Rightarrow> bool" where
  "phonesAsWritten s = list_all (\<lambda>c. isJsonText (all_phones c)) (customers s)"


text \<open>A later store answers every order lookup that an earlier one answers.\<close>

definition storeGrows :: "engine \<Rightarrow> store \<Rightarrow> store \<Rightarrow> bool" where
  "storeGrows E s s' = (\<forall>b. findOrder E s b \<noteq> None \<longrightarrow> findOrder E s' b \<noteq> None)"

text \<open>The summary of the job shows the local counters.\<close>

definition synced :: "run \<Rightarrow> bool" where
  "synced st = (successfulInserts (job st) = nSuccessful st \<and>
                skippedDuplicates (job st) = nSkipped st \<and> failedInserts (job st) = nFailed st)"

section \<open>Concrete inputs\<close>

text \<open>
  Three engines that match a key with itself only (right for the keys used here, texts
  that differ in more than case): one that rejects nothing, one that rejects the bulk
  insert of the items of order 1, one that rejects the insert of the order B1. Then a small
  worksheet: bill B1 on rows 2 and 4, bill B2 on row 3, a row without total amount and a
  row whose total is the number 0.
\<close>

definition quietEngine :: engine where
  "quietEngine =
     \<lparr>render = (\<lambda>v. ''[object Object]''), rejects = (\<lambda>c. False),
      keyMatches = (\<lambda>written asked. written = asked)\<rparr>"

definition failingEngine :: engine where
  "failingEngine =
     \<lparr>render = (\<lambda>v. ''[object Object]''), rejects = (\<lambda>c. c = BulkCreateItems 1),
      keyMatches = (\<lambda>written asked. written = asked)\<rparr>"


definition sheetHeader :: "nat \<Rightarrow> jsval" where
  "sheetHeader col =
     (if col = 1 then JStr ''Bill Number''
      else if col = 2 then JStr '' Order Total Amount ''
      else if col = 3 then JStr ''Item #''
      else if col = 4 then JStr ''Email''
      else if col = 5 then JStr ''Phone''
      else if col = 6 then JStr ''Order Number''
      else JUndefined)"

definition dataRow :: "nat \<Rightarrow> (nat \<times> jsval) list \<Rightarrow> sheet_row" where
  "dataRow n cs = \<lparr>rowNumber = n, hasValues = True, cells = cs\<rparr>"

definition sampleSheet :: worksheet where
  "sampleSheet =
     \<lparr>headerValues = sheetHeader,
      sheetRows =
        [dataRow 1 [(1, JStr ''Bill Number''), (2, JStr '' Order Total Amount '')],
         dataRow 2 [(1, JStr ''B1''), (2, JNum 10), (3, JStr ''i1''), (4, JStr ''a@x.in''),
                    (5, JStr ''+91 98765-43210''), (6, JStr ''N1'')],
         dataRow 3 [(1, JStr ''B2''), (2, JNum 5), (3, JStr ''i2''), (4, JStr ''b@x.in''),
                    (6, JStr ''N2'')],
         dataRow 4 [(1, JStr ''B1''), (2, JNum 10), (3, JStr ''i3''), (4, JStr ''a@x.in''),
                    (5, JStr ''+91 98765-43210''), (6, JStr ''N1'')],
         dataRow 5 [(1, JStr ''B3''), (3, JStr ''i4'')],
         dataRow 6 [(1, JStr ''B4''), (2, JNum 0), (3, JStr ''i5'')]]\<rparr>"

definition emptyStore :: store where
  "emptyStore = \<lparr>customers = [], orders = [], order_items = [], products = []\<rparr>"

text \<open>
  A store with two profiles as the import writes them, the first created for the phone
  9876543210, and an order that names this phone together with the email of the second
  profile. Then the same store with an order persisted under the bill number B7, and an
  order for this bill number that has neither phone nor email.
\<close>

definition profile :: "nat \<Rightarrow> string \<Rightarrow> string list \<Rightarrow> customer" where
  "profile i mail phones =
     \<lparr>cid = i, customer_user_id = JNull, customer_username = JNull, email = mail,
      all_emails = JsonText [mail], all_phones = JsonText phones, party_name = JStr ''N/A'',
      company_billing = JStr ''N/A'', gst_number = JNull, state_name = JStr ''N/A'',
      address = JStr ''N/A'', pincode = JStr ''N/A'', country = JStr ''N/A''\<rparr>"

definition twoProfiles :: store where
  "twoProfiles =
     \<lparr>customers = [profile 1 ''a@x.in'' [''9876543210''], profile 2 ''b@x.in'' []],
      orders = [], order_items = [], products = []\<rparr>"

definition crossOrder :: aggregate where
  "crossOrder =
     \<lparr>orderFields = map_of [(''bill_number'', JStr ''B7''), (''order_number'', JStr ''N7''),
                            (''phone'', JStr ''+91 98765-43210''), (''email'', JStr '' b@x.in ''),
                            (''party_name'', JStr ''Asha'')],
      items = []\<rparr>"

definition billedStore :: store where
  "billedStore =
     twoProfiles\<lparr>orders := [\<lparr>oid = 1, bill_number = JStr ''B7'', order_number = JStr ''N7'',
                              customerId = 1\<rparr>]\<rparr>"

definition anonymousOrder :: aggregate where
  "anonymousOrder =
     \<lparr>orderFields = map_of [(''bill_number'', JStr ''B7''), (''order_number'', JStr ''N7'')],
      items = []\<rparr>"

definition runAt :: "store \<Rightarrow> run" where
  "runAt s = \<lparr>db = s, nSuccessful = 0, nSkipped = 0, nFailed = 0, job = initialSummary\<rparr>"

text \<open>
  A worksheet whose first order has a phone and no email and whose second order has the
  same phone and an email.
\<close>

definition rerunSheet :: worksheet where
  "rerunSheet =
     \<lparr>headerValues = sheetHeader,
      sheetRows =
        [dataRow 1 [(1, JStr ''Bill Number''), (2, JStr '' Order Total Amount '')],
         dataRow 2 [(1, JStr ''A''), (2, JNum 10), (3, JStr ''i1''),
                    (5, JStr ''9876543210''), (6, JStr ''N1'')],
         dataRow 3 [(1, JStr ''B''), (2, JNum 5), (3, JStr ''i2''), (4, JStr ''b@x.in''),
                    (5, JStr ''9876543210''), (6, JStr ''N2'')]]\<rparr>"

text \<open>An order with one line item, for a bill number that is not persisted.\<close>

definition itemOrder :: aggregate where
  "itemOrder =
     \<lparr>orderFields = map_of [(''bill_number'', JStr ''B8''), (''order_number'', JStr ''N8''),
                            (''email'', JStr ''c@x.in'')],
      items = [\<lparr>product_id = JStr ''i8'', item_hash = JStr ''i8'', item_name = JStr ''Pen'',
                hsn_code = JUndefined, gst_rate = JNum 18, quantity = JNum 2,
                unit_cost_at_sale = JNum 5, order_line_tax = JUndefined\<rparr>]\<rparr>"

section \<open>Lists: first occurrences and searches\<close>

lemma filter_swap: "filter P (filter Q xs) = filter Q (filter P xs)"
  by (induction xs) auto

lemma filter_neq_id: "b \<notin> set D \<Longrightarrow> filter (\<lambda>y. y \<noteq> b) D = D"
  by (induction D) auto

lemma firsts_filter: "filter P (firsts xs) = firsts (filter P xs)"
proof (induction xs)
  case Nil
  show ?case by simp
next
  case (Cons a xs)
  show ?case
  proof (cases "P a")
    case True
    have "filter P (filter (\<lambda>y. y \<noteq> a) (firsts xs))
          = filter (\<lambda>y. y \<noteq> a) (firsts (filter P xs))"
      by (simp only: filter_swap [of P] Cons.IH)
    with True show ?thesis by simp
  next
    case False
    then have "a \<notin> set (filter P (firsts xs))" by simp
    then have "filter (\<lambda>y. y \<noteq> a) (filter P (firsts xs)) = filter P (firsts xs)"
      by (rule filter_neq_id)
    then have "filter P (filter (\<lambda>y. y \<noteq> a) (firsts xs)) = firsts (filter P xs)"
      by (simp only: filter_swap [of P] Cons.IH)
    with False show ?thesis by simp
  qed
qed

lemma set_firsts: "set (firsts xs) = set xs"
  by (induction xs) auto

lemma distinct_firsts: "distinct (firsts xs)"
  by (induction xs) (auto simp: set_firsts)

lemma firsts_snoc:
  "firsts (xs @ [x]) = (if x \<in> set xs then firsts xs else firsts xs @ [x])"
  by (induction xs) auto

lemma find_snoc:
  "find P (xs @ [x]) = (case find P xs of Some y \<Rightarrow> Some y | None \<Rightarrow> if P x then Some x else None)"
  by (induction xs) auto

lemma find_None_iff_set: "(find P xs = None) = (\<forall>x \<in> set xs. \<not> P x)"
  by (induction xs) auto

lemma find_SomeD: "find P xs = Some x \<Longrightarrow> x \<in> set xs \<and> P x"
  by (induction xs) (auto split: if_splits)

section \<open>Properties of phone normalization\<close>

lemma startsWith_91: "startsWith s ''91'' = (take 2 s = ''91'')"
  by (simp add: startsWith_def numeral_2_eq_2)

lemma normalizePhone_string:
  "normalizePhone (JStr s) =
     Inr (if startsWith (filter is_digit s) ''91'' \<and> length (filter is_digit s) > 10
          then substring (filter is_digit s) 2 else filter is_digit s)"
  by (cases s) (simp_all add: normalizePhone_def Let_def startsWith_def)

lemma normalizePhone_digits:
  assumes "normalizePhone v = Inr p"
  shows "\<forall>c \<in> set p. is_digit c"
proof (cases "truthy v")
  case False
  with assms show ?thesis by (simp add: normalizePhone_def)
next
  case True
  with assms obtain s where v: "v = JStr s"
    by (cases v) (simp_all add: normalizePhone_def)
  have "set (drop 2 (filter is_digit s)) \<subseteq> set (filter is_digit s)"
    by (rule set_drop_subset)
  with assms v show ?thesis
    by (auto simp: normalizePhone_string substring_def split: if_splits)
qed

lemma normalizePhone_number_raises:
  "x \<noteq> 0 \<Longrightarrow> normalizePhone (JNum x) = Inl TypeError"
  by (simp add: normalizePhone_def)

section \<open>Properties of customer resolution\<close>


lemma andThen_Inl [simp]: "andThen (Inl e) f = Inl e"
  by (simp add: andThen_def)

lemma andThen_Inr [simp]: "andThen (Inr x) f = f x"
  by (simp add: andThen_def)

lemma andThen_eq_Inr: "(andThen m f = Inr y) = (\<exists>x. m = Inr x \<and> f x = Inr y)"
  by (cases m) simp_all

lemma call_eq_Inr: "(call E c v = Inr y) = (\<not> rejects E c \<and> y = v)"
  by (auto simp: call_def)

lemma call_ok: "\<not> rejects E c \<Longrightarrow> call E c v = Inr v"
  by (simp add: call_def)

subsection \<open>fresh ids\<close>

lemma fold_max_ge: "(m::nat) \<le> fold max xs m"
  by (induction xs arbitrary: m) (auto intro: order_trans [OF max.cobounded2])

lemma fold_max_mem: "(x::nat) \<in> set xs \<Longrightarrow> x \<le> fold max xs m"
proof (induction xs arbitrary: m)
  case Nil
  then show ?case by simp
next
  case (Cons a xs)
  show ?case
  proof (cases "x = a")
    case True
    have "max a m \<le> fold max xs (max a m)" by (rule fold_max_ge)
    with True show ?thesis by simp
  next
    case False
    with Cons show ?thesis by simp
  qed
qed

lemma fresh_id_notin: "fresh_id ids \<notin> set ids"
proof
  assume "fresh_id ids \<in> set ids"
  then have "fresh_id ids \<le> fold max ids 0" by (rule fold_max_mem)
  then show False by (simp add: fresh_id_def)
qed

subsection \<open>customer search\<close>

lemma findCustomer_cases:
  assumes "findCustomer E s p m = Inr r"
  shows "(p \<noteq> [] \<and> r = find (\<lambda>c. JSON_CONTAINS (all_phones c) p) (customers s) \<and> r \<noteq> None)
       \<or> ((p = [] \<or> find (\<lambda>c. JSON_CONTAINS (all_phones c) p) (customers s) = None)
           \<and> (if m \<noteq> [] then r = find (\<lambda>c. email c = m) (customers s) else r = None))"
  using assms
  by (auto simp: findCustomer_def andThen_eq_Inr call_eq_Inr split: if_splits)

lemma findCustomer_mem:
  assumes "findCustomer E s p m = Inr (Some c)"
  shows "c \<in> set (customers s)"
  using findCustomer_cases [OF assms]
  by (auto split: if_splits dest: find_SomeD [OF sym] find_SomeD)


subsection \<open>customer resolution\<close>

lemma customerUpdateFields_sel:
  "cid (customerUpdateFields od found p m r) = cid r"
  "email (customerUpdateFields od found p m r) = email r"
  "country (customerUpdateFields od found p m r) = country r"
  "all_phones (customerUpdateFields od found p m r) =
     (if p \<noteq> [] \<and> p \<notin> set (parsedList (all_phones found))
      then JsonText (parsedList (all_phones found) @ [p]) else all_phones r)"
  "all_emails (customerUpdateFields od found p m r) =
     (if m \<noteq> [] \<and> m \<notin> set (parsedList (all_emails found))
      then JsonText (parsedList (all_emails found) @ [m]) else all_emails r)"
  by (simp_all add: customerUpdateFields_def Let_def)

lemma customerUpdateFields_lists:
  "parsedList (all_phones (customerUpdateFields od found p m found)) =
     parsedList (all_phones found)
       @ (if p \<noteq> [] \<and> p \<notin> set (parsedList (all_phones found)) then [p] else [])"
  "parsedList (all_emails (customerUpdateFields od found p m found)) =
     parsedList (all_emails found)
       @ (if m \<noteq> [] \<and> m \<notin> set (parsedList (all_emails found)) then [m] else [])"
  by (simp_all add: customerUpdateFields_sel)

lemma customerUpdateFields_text:
  "isJsonText (all_phones r) \<Longrightarrow> isJsonText (all_phones (customerUpdateFields od found p m r))"
  by (simp add: customerUpdateFields_sel)

lemma update_distinct:
  assumes "distinct (map cid cs)" and "found \<in> set cs"
  shows "map (\<lambda>r. if cid r = cid found then f r else r) cs
       = map (\<lambda>r. if r = found then f found else r) cs"
proof (rule map_cong [OF refl])
  fix r assume "r \<in> set cs"
  with assms have "cid r = cid found \<longleftrightarrow> r = found"
    by (auto simp: distinct_map dest: inj_onD)
  then show "(if cid r = cid found then f r else r) = (if r = found then f found else r)"
    by auto
qed

lemma findOrCreateCustomer_cases:
  assumes "findOrCreateCustomer E s od = Inr (c, s1)"
  shows "\<exists>p. normalizePhone (attr od ''phone'') = Inr p \<and>
     ((\<exists>found. findCustomer E s p (orderEmail E od) = Inr (Some found)
         \<and> \<not> rejects E (UpdateCustomer (cid found))
         \<and> c = customerUpdateFields od found p (orderEmail E od) found
         \<and> s1 = s\<lparr>customers :=
                    map (\<lambda>r. if cid r = cid found
                              then customerUpdateFields od found p (orderEmail E od) r else r)
                      (customers s)\<rparr>)
      \<or> (findCustomer E s p (orderEmail E od) = Inr None
         \<and> orderEmail E od \<noteq> []
         \<and> \<not> rejects E (CreateCustomer (orderEmail E od))
         \<and> c = newCustomerData s od p (orderEmail E od)
         \<and> s1 = s\<lparr>customers := customers s @ [c]\<rparr>))"
proof -
  let ?m = "orderEmail E od"
  from assms obtain p r where p: "normalizePhone (attr od ''phone'') = Inr p"
    and r: "findCustomer E s p ?m = Inr r"
    and k: "(case r of
               Some found \<Rightarrow> updateCustomer E s found (customerUpdateFields od found p ?m)
             | None \<Rightarrow> createCustomer E s od p ?m) = Inr (c, s1)"
    unfolding findOrCreateCustomer_def andThen_eq_Inr Let_def by blast
  show ?thesis
  proof (cases r)
    case None
    with k have "createCustomer E s od p ?m = Inr (c, s1)" by simp
    then have "?m \<noteq> [] \<and> \<not> rejects E (CreateCustomer ?m)
        \<and> c = newCustomerData s od p ?m \<and> s1 = s\<lparr>customers := customers s @ [c]\<rparr>"
      by (auto simp: createCustomer_def call_eq_Inr Let_def split: if_splits)
    with p r None show ?thesis by blast
  next
    case (Some found)
    with k have "updateCustomer E s found (customerUpdateFields od found p ?m) = Inr (c, s1)"
      by simp
    then have "\<not> rejects E (UpdateCustomer (cid found))
         \<and> c = customerUpdateFields od found p ?m found
         \<and> s1 = s\<lparr>customers :=
                    map (\<lambda>r. if cid r = cid found
                              then customerUpdateFields od found p ?m r else r)
                      (customers s)\<rparr>"
      by (auto simp: updateCustomer_def call_eq_Inr)
    with p r Some show ?thesis by blast
  qed
qed

lemma findOrCreateCustomer_tables:
  assumes "findOrCreateCustomer E s od = Inr (c, s1)"
  shows "orders s1 = orders s" "order_items s1 = order_items s" "products s1 = products s"
  using findOrCreateCustomer_cases [OF assms] by auto

lemma findOrCreateCustomer_distinct:
  assumes "findOrCreateCustomer E s od = Inr (c, s1)" and "distinctCustomers s"
  shows "distinctCustomers s1"
proof -
  from findOrCreateCustomer_cases [OF assms(1)] obtain p where
    "(\<exists>found. s1 = s\<lparr>customers :=
                    map (\<lambda>r. if cid r = cid found
                              then customerUpdateFields od found p (orderEmail E od) r else r)
                      (customers s)\<rparr>)
     \<or> (c = newCustomerData s od p (orderEmail E od) \<and> s1 = s\<lparr>customers := customers s @ [c]\<rparr>)"
    by blast
  then show ?thesis
  proof
    assume "\<exists>found. s1 = s\<lparr>customers :=
                    map (\<lambda>r. if cid r = cid found
                              then customerUpdateFields od found p (orderEmail E od) r else r)
                      (customers s)\<rparr>"
    then obtain found where s1: "s1 = s\<lparr>customers :=
                    map (\<lambda>r. if cid r = cid found
                              then customerUpdateFields od found p (orderEmail E od) r else r)
                      (customers s)\<rparr>" ..
    have "map cid (customers s1) = map cid (customers s)"
      unfolding s1 by (simp add: comp_def customerUpdateFields_sel if_distrib cong: if_cong)
    with assms(2) show ?thesis by (simp add: distinctCustomers_def)
  next
    assume "c = newCustomerData s od p (orderEmail E od) \<and> s1 = s\<lparr>customers := customers s @ [c]\<rparr>"
    then have "map cid (customers s1) = map cid (customers s) @ [fresh_id (map cid (customers s))]"
      by (simp add: newCustomerData_def)
    with assms(2) fresh_id_notin [of "map cid (customers s)"] show ?thesis
      by (simp add: distinctCustomers_def)
  qed
qed

subsection \<open>a store that only the import has written\<close>




lemma findOrCreateCustomer_written:
  assumes "findOrCreateCustomer E s od = Inr (c, s1)" and "phonesAsWritten s"
  shows "phonesAsWritten s1"
proof -
  from findOrCreateCustomer_cases [OF assms(1)] obtain p where
    "(\<exists>found. s1 = s\<lparr>customers :=
                    map (\<lambda>r. if cid r = cid found
                              then customerUpdateFields od found p (orderEmail E od) r else r)
                      (customers s)\<rparr>)
     \<or> (c = newCustomerData s od p (orderEmail E od) \<and> s1 = s\<lparr>customers := customers s @ [c]\<rparr>)"
    by blast
  then show ?thesis
  proof
    assume "\<exists>found. s1 = s\<lparr>customers :=
                    map (\<lambda>r. if cid r = cid found
                              then customerUpdateFields od found p (orderEmail E od) r else r)
                      (customers s)\<rparr>"
    then obtain found where s1: "s1 = s\<lparr>customers :=
                    map (\<lambda>r. if cid r = cid found
                              then customerUpdateFields od found p (orderEmail E od) r else r)
                      (customers s)\<rparr>" ..
    show ?thesis
      using assms(2) unfolding s1
      by (auto simp: phonesAsWritten_def list_all_iff customerUpdateFields_text)
  next
    assume "c = newCustomerData s od p (orderEmail E od) \<and> s1 = s\<lparr>customers := customers s @ [c]\<rparr>"
    with assms(2) show ?thesis
      by (simp add: phonesAsWritten_def newCustomerData_def)
  qed
qed


section \<open>Properties of the per-order transaction\<close>


subsection \<open>products, items, orders\<close>

lemma findOrCreateProduct_tables:
  assumes "findOrCreateProduct E s it = Inr (p, s1)"
  shows "customers s1 = customers s \<and> orders s1 = orders s \<and> order_items s1 = order_items s"
  using assms
  by (auto simp: findOrCreateProduct_def Let_def andThen_eq_Inr call_eq_Inr
        split: if_splits option.splits)

lemma stageItems_tables:
  "stageItems E s orderId its = Inr (staged, s1) \<Longrightarrow>
   customers s1 = customers s \<and> orders s1 = orders s \<and> order_items s1 = order_items s"
proof (induction its arbitrary: s staged s1)
  case Nil
  then show ?case by simp
next
  case (Cons it its)
  from Cons.prems obtain p sa staged' sb where
    a: "findOrCreateProduct E s it = Inr (p, sa)" and
    b: "stageItems E sa orderId its = Inr (staged', sb)" and
    c: "s1 = sb"
    by (auto simp: andThen_eq_Inr)
  from findOrCreateProduct_tables [OF a] Cons.IH [OF b] c show ?case by simp
qed

lemma bulkCreate_tables:
  "bulkCreate E s orderId rows = Inr s1 \<Longrightarrow>
   customers s1 = customers s \<and> orders s1 = orders s"
  by (auto simp: bulkCreate_def call_eq_Inr split: if_splits)

lemma createOrder_cases:
  assumes "createOrder E s od c = Inr (newOrder, s1)"
  shows "bill_number newOrder = attr od ''bill_number'' \<and> orders s1 = orders s @ [newOrder]
         \<and> customers s1 = customers s"
  using assms
  by (auto simp: createOrder_def Let_def call_eq_Inr split: if_splits)

lemma findOrder_tables: "orders s1 = orders s \<Longrightarrow> findOrder E s1 b = findOrder E s b"
  by (simp add: findOrder_def)

lemma findOrder_exact:
  "keyMatches E b b \<Longrightarrow> persisted s b \<Longrightarrow> findOrder E s b \<noteq> None"
  by (auto simp: findOrder_def find_None_iff_set persisted_def)

lemma findOrder_append:
  "findOrder E s b \<noteq> None \<Longrightarrow> orders s' = orders s @ rs \<Longrightarrow> findOrder E s' b \<noteq> None"
  by (auto simp: findOrder_def find_None_iff_set)

lemma orderTransaction_cases:
  assumes "orderTransaction E s od = Inr t"
  shows "\<exists>c s1. findOrCreateCustomer E s od = Inr (c, s1)
          \<and> \<not> rejects E (FindOrder (attr od ''bill_number''))
          \<and> (if findOrder E s (attr od ''bill_number'') \<noteq> None then t = RolledBack s1
              else \<exists>w newOrder. t = Committed w \<and> customers w = customers s1
                     \<and> orders w = orders s @ [newOrder]
                     \<and> bill_number newOrder = attr od ''bill_number'')"
proof -
  let ?b = "attr od ''bill_number''"
  from assms obtain c s1 existing where
    fc: "findOrCreateCustomer E s od = Inr (c, s1)" and
    fo: "call E (FindOrder ?b) (findOrder E s1 ?b) = Inr existing" and
    k: "(case existing of
           Some _ \<Rightarrow> Inr (RolledBack s1)
         | None \<Rightarrow>
             andThen (createOrder E s1 od c)
               (\<lambda>(newOrder, s2).
                  andThen (stageItems E s2 (oid newOrder) (items od))
                    (\<lambda>(itemsToInsert, s3).
                       andThen (bulkCreate E s3 (oid newOrder) itemsToInsert)
                         (\<lambda>s4. Inr (Committed s4))))) = Inr t"
    by (auto simp: orderTransaction_def andThen_eq_Inr)
  have os: "orders s1 = orders s" using fc by (rule findOrCreateCustomer_tables)
  from fo have nr: "\<not> rejects E (FindOrder ?b)"
    and ex: "existing = findOrder E s ?b"
    by (simp_all add: call_eq_Inr findOrder_tables [OF os])
  show ?thesis
  proof (cases existing)
    case (Some r)
    with ex have "findOrder E s ?b \<noteq> None" by (metis option.distinct(1))
    with Some k fc nr show ?thesis by auto
  next
    case None
    with ex have np: "findOrder E s ?b = None" by simp
    from None k obtain newOrder s2 staged s3 s4 where
      co: "createOrder E s1 od c = Inr (newOrder, s2)" and
      st: "stageItems E s2 (oid newOrder) (items od) = Inr (staged, s3)" and
      bc: "bulkCreate E s3 (oid newOrder) staged = Inr s4" and
      t: "t = Committed s4"
      by (auto simp: andThen_eq_Inr)
    from createOrder_cases [OF co] stageItems_tables [OF st] bulkCreate_tables [OF bc] os
    have "customers s4 = customers s1 \<and> orders s4 = orders s @ [newOrder]
          \<and> bill_number newOrder = ?b" by simp
    with np t fc nr show ?thesis by auto
  qed
qed


lemma orderTransaction_raises:
  "findOrCreateCustomer E s od = Inl e \<Longrightarrow> orderTransaction E s od = Inl e"
  by (simp add: orderTransaction_def)

subsection \<open>one turn of the loop\<close>

lemma processOrder_failed:
  "orderTransaction E (db st) od = Inl e \<Longrightarrow>
   processOrder E od st =
     st\<lparr>nFailed := nFailed st + 1, job := (job st)\<lparr>failedInserts := nFailed st + 1\<rparr>\<rparr>"
  by (simp add: processOrder_def)

lemma processOrder_skipped:
  "orderTransaction E (db st) od = Inr (RolledBack w) \<Longrightarrow>
   processOrder E od st =
     st\<lparr>nSkipped := nSkipped st + 1, job := (job st)\<lparr>skippedDuplicates := nSkipped st + 1\<rparr>\<rparr>"
  by (simp add: processOrder_def)

lemma processOrder_committed:
  "orderTransaction E (db st) od = Inr (Committed w) \<Longrightarrow>
   processOrder E od st =
     st\<lparr>db := w, nSuccessful := nSuccessful st + 1,
        job := (job st)\<lparr>successfulInserts := nSuccessful st + 1\<rparr>\<rparr>"
  by (simp add: processOrder_def)

lemma processOrder_cases:
  obtains (failed) e where "orderTransaction E (db st) od = Inl e"
  | (skipped) w where "orderTransaction E (db st) od = Inr (RolledBack w)"
  | (committed) w where "orderTransaction E (db st) od = Inr (Committed w)"
proof (cases "orderTransaction E (db st) od")
  case (Inl e)
  then show ?thesis by (rule failed)
next
  case (Inr t)
  then show ?thesis by (cases t) (auto intro: skipped committed)
qed

section \<open>Properties of a run\<close>


subsection \<open>counters\<close>

lemma processOrder_counts:
  "nSuccessful (processOrder E od st) + nSkipped (processOrder E od st)
     + nFailed (processOrder E od st) = nSuccessful st + nSkipped st + nFailed st + 1"
  by (rule processOrder_cases [of E st od])
     (simp_all add: processOrder_failed processOrder_skipped processOrder_committed)

lemma fold_processOrder_counts:
  "nSuccessful (fold (processOrder E) ods st) + nSkipped (fold (processOrder E) ods st)
     + nFailed (fold (processOrder E) ods st)
   = nSuccessful st + nSkipped st + nFailed st + length ods"
proof (induction ods arbitrary: st)
  case Nil
  show ?case by simp
next
  case (Cons od ods)
  show ?case
    using processOrder_counts [of E od st] by (simp add: Cons.IH)
qed

lemma processOrder_synced: "synced st \<Longrightarrow> synced (processOrder E od st)"
  by (rule processOrder_cases [of E st od])
     (simp_all add: synced_def processOrder_failed processOrder_skipped processOrder_committed)

lemma processOrder_total: "totalProcessed (job (processOrder E od st)) = totalProcessed (job st)"
  by (rule processOrder_cases [of E st od])
     (simp_all add: processOrder_failed processOrder_skipped processOrder_committed)

lemma fold_processOrder_synced:
  "synced st \<Longrightarrow> synced (fold (processOrder E) ods st)"
  by (induction ods arbitrary: st) (simp_all add: processOrder_synced)

lemma fold_processOrder_total:
  "totalProcessed (job (fold (processOrder E) ods st)) = totalProcessed (job st)"
  by (induction ods arbitrary: st) (simp_all add: processOrder_total)

subsection \<open>the orders table only grows\<close>



lemma committed_grows:
  assumes "orderTransaction E s od = Inr (Committed w)"
  shows "storeGrows E' s w"
    and "phonesAsWritten s \<Longrightarrow> phonesAsWritten w"
    and "keyMatches E' (attr od ''bill_number'') (attr od ''bill_number'')
         \<Longrightarrow> findOrder E' w (attr od ''bill_number'') \<noteq> None"
proof -
  from orderTransaction_cases [OF assms] obtain c s1 newOrder where
    fc: "findOrCreateCustomer E s od = Inr (c, s1)" and
    cw: "customers w = customers s1" and
    ow: "orders w = orders s @ [newOrder]" and
    bn: "bill_number newOrder = attr od ''bill_number''"
    by (auto split: if_splits)
  show "storeGrows E' s w"
    unfolding storeGrows_def
  proof (intro allI impI)
    fix b assume "findOrder E' s b \<noteq> None"
    then show "findOrder E' w b \<noteq> None" using ow by (rule findOrder_append)
  qed
  show "phonesAsWritten w" if "phonesAsWritten s"
  proof -
    have "phonesAsWritten s1" using fc that by (rule findOrCreateCustomer_written)
    then show ?thesis by (simp add: phonesAsWritten_def cw)
  qed
  show "findOrder E' w (attr od ''bill_number'') \<noteq> None"
    if "keyMatches E' (attr od ''bill_number'') (attr od ''bill_number'')"
    using that by (auto simp: findOrder_def find_None_iff_set ow bn)
qed


lemma processOrder_written:
  assumes "phonesAsWritten (db st)"
  shows "phonesAsWritten (db (processOrder E od st))"
proof (rule processOrder_cases [of E st od])
  fix e assume "orderTransaction E (db st) od = Inl e"
  with assms show ?thesis by (simp add: processOrder_failed)
next
  fix w assume "orderTransaction E (db st) od = Inr (RolledBack w)"
  with assms show ?thesis by (simp add: processOrder_skipped)
next
  fix w assume c: "orderTransaction E (db st) od = Inr (Committed w)"
  from committed_grows(2) [OF c assms] show ?thesis by (simp add: processOrder_committed [OF c])
qed


lemma fold_processOrder_written:
  "phonesAsWritten (db st) \<Longrightarrow> phonesAsWritten (db (fold (processOrder E) ods st))"
  by (induction ods arbitrary: st) (simp_all add: processOrder_written)

subsection \<open>settled aggregates\<close>







subsection \<open>a run on an engine that rejects nothing\<close>






section \<open>Properties of the grouping\<close>

lemma aggregateOf_snoc:
  "aggregateOf E ws (rs @ [r]) b =
     (if rowBill E ws r = b
      then if b \<in> set (map (rowBill E ws) rs)
           then (aggregateOf E ws rs b)
                  \<lparr>items := items (aggregateOf E ws rs b) @ [itemOf (rowDataOf E ws r)]\<rparr>
           else \<lparr>orderFields = rowDataOf E ws r, items = [itemOf (rowDataOf E ws r)]\<rparr>
      else aggregateOf E ws rs b)"
proof (cases "find (\<lambda>r. rowBill E ws r = b) rs")
  case None
  then have no: "\<forall>x \<in> set rs. rowBill E ws x \<noteq> b"
    by (simp add: find_None_iff_set)
  then have "filter (\<lambda>r. rowBill E ws r = b) rs = []"
    by (simp add: filter_empty_conv)
  with None no show ?thesis
    by (auto simp: aggregateOf_def find_snoc)
next
  case (Some y)
  then have "y \<in> set rs \<and> rowBill E ws y = b"
    by (auto simp: find_Some_iff)
  then have "b \<in> set (map (rowBill E ws) rs)" by auto
  with Some show ?thesis
    by (simp add: aggregateOf_def find_snoc)
qed

lemma pushItem_map:
  "pushItem b it (map (\<lambda>k. (k, f k)) ks) =
     map (\<lambda>k. (k, if k = b then (f k)\<lparr>items := items (f k) @ [it]\<rparr> else f k)) ks"
  by (simp add: pushItem_def)

lemma pushItem_new:
  "b \<notin> set ks \<Longrightarrow>
   pushItem b it (map (\<lambda>k. (k, f k)) ks @ [(b, a)]) =
     map (\<lambda>k. (k, f k)) ks @ [(b, a\<lparr>items := items a @ [it]\<rparr>)]"
  by (auto simp: pushItem_def)

lemma eachRow_skip:
  "\<not> survives E ws r \<Longrightarrow>
   eachRow E ws r g = (if warned E ws r then g\<lparr>warnings := warnings g @ [rowNumber r]\<rparr> else g)"
  by (auto simp: eachRow_def survives_def warned_def Let_def)

lemma eachRow_keep:
  "survives E ws r \<Longrightarrow>
   eachRow E ws r g =
     g\<lparr>ordersMap :=
         pushItem (rowBill E ws r) (itemOf (rowDataOf E ws r))
           (if \<not> map_has (ordersMap g) (rowBill E ws r)
            then ordersMap g @ [(rowBill E ws r, \<lparr>orderFields = rowDataOf E ws r, items = []\<rparr>)]
            else ordersMap g)\<rparr>"
  by (simp add: eachRow_def survives_def rowBill_def Let_def)

lemma survives_not_warned: "survives E ws r \<Longrightarrow> \<not> warned E ws r"
  by (simp add: survives_def warned_def)

lemma eachRow_loop:
  "fold (eachRow E ws) rs \<lparr>ordersMap = [], warnings = []\<rparr> =
     \<lparr>ordersMap =
        map (\<lambda>b. (b, aggregateOf E ws (filter (survives E ws) rs) b))
          (firsts (map (rowBill E ws) (filter (survives E ws) rs))),
      warnings = map rowNumber (filter (warned E ws) rs)\<rparr>"
proof (induction rs rule: rev_induct)
  case Nil
  show ?case by simp
next
  case (snoc r rs)
  let ?surv = "filter (survives E ws) rs"
  let ?b = "rowBill E ws r"
  show ?case
  proof (cases "survives E ws r")
    case False
    then show ?thesis
      by (simp add: snoc.IH eachRow_skip)
  next
    case True
    note nw = survives_not_warned [OF True]
    show ?thesis
    proof (cases "?b \<in> set (map (rowBill E ws) ?surv)")
      case old: True
      then have has: "map_has (map (\<lambda>b. (b, aggregateOf E ws ?surv b))
          (firsts (map (rowBill E ws) ?surv))) ?b"
        by (simp add: map_has_def comp_def set_firsts)
      have "map (\<lambda>k. (k, if k = ?b
                 then (aggregateOf E ws ?surv k)
                        \<lparr>items := items (aggregateOf E ws ?surv k) @ [itemOf (rowDataOf E ws r)]\<rparr>
                 else aggregateOf E ws ?surv k)) (firsts (map (rowBill E ws) ?surv))
          = map (\<lambda>k. (k, aggregateOf E ws (?surv @ [r]) k)) (firsts (map (rowBill E ws) ?surv))"
        using old by (intro map_cong refl) (auto simp: aggregateOf_snoc)
      with True nw old has show ?thesis
        by (simp add: snoc.IH eachRow_keep pushItem_map firsts_snoc del: set_map)
    next
      case new: False
      then have has: "\<not> map_has (map (\<lambda>b. (b, aggregateOf E ws ?surv b))
          (firsts (map (rowBill E ws) ?surv))) ?b"
        by (simp add: map_has_def comp_def set_firsts)
      have nb: "?b \<notin> set (firsts (map (rowBill E ws) ?surv))"
        using new by (simp add: set_firsts)
      have "map (\<lambda>k. (k, aggregateOf E ws ?surv k)) (firsts (map (rowBill E ws) ?surv))
          = map (\<lambda>k. (k, aggregateOf E ws (?surv @ [r]) k)) (firsts (map (rowBill E ws) ?surv))"
        using nb by (intro map_cong refl) (auto simp: aggregateOf_snoc)
      moreover have "aggregateOf E ws (?surv @ [r]) ?b
          = \<lparr>orderFields = rowDataOf E ws r, items = [itemOf (rowDataOf E ws r)]\<rparr>"
        using new by (simp add: aggregateOf_snoc)
      ultimately show ?thesis
        using True nw new has nb
        by (simp add: snoc.IH eachRow_keep pushItem_new firsts_snoc del: set_map)
    qed
  qed
qed



lemma attr_aggregateOf:
  "b \<in> set (map (rowBill E ws) rs) \<Longrightarrow> attr (aggregateOf E ws rs b) ''bill_number'' = b"
proof -
  assume "b \<in> set (map (rowBill E ws) rs)"
  then have "find (\<lambda>r. rowBill E ws r = b) rs \<noteq> None"
    by (auto simp: find_None_iff_set)
  then obtain r where r: "find (\<lambda>r. rowBill E ws r = b) rs = Some r" by blast
  then have "rowBill E ws r = b" by (auto dest: find_SomeD)
  with r show ?thesis by (simp add: attr_def aggregateOf_def rowBill_def)
qed

lemma groupRows_closed:
  "groupRows E ws =
     \<lparr>ordersMap =
        map (\<lambda>b. (b, aggregateOf E ws (filter (survives E ws) (sheetRows ws)) b))
          (firsts (map (rowBill E ws) (filter (survives E ws) (sheetRows ws)))),
      warnings = map rowNumber (filter (warned E ws) (sheetRows ws))\<rparr>"
  by (simp add: groupRows_def eachRow_loop)

lemma parseFileAndGroupOrders_closed:
  "parseFileAndGroupOrders E ws =
     map (aggregateOf E ws (filter (survives E ws) (sheetRows ws)))
       (firsts (map (rowBill E ws) (filter (survives E ws) (sheetRows ws))))"
  by (simp add: parseFileAndGroupOrders_def groupRows_closed comp_def)

lemma bills_grouped:
  "map (\<lambda>a. attr a ''bill_number'') (parseFileAndGroupOrders E ws) =
     firsts (map (rowBill E ws) (filter (survives E ws) (sheetRows ws)))"
proof -
  let ?surv = "filter (survives E ws) (sheetRows ws)"
  have "map (\<lambda>b. attr (aggregateOf E ws ?surv b) ''bill_number'')
          (firsts (map (rowBill E ws) ?surv))
        = map (\<lambda>b. b) (firsts (map (rowBill E ws) ?surv))"
    by (rule map_cong [OF refl]) (simp add: set_firsts attr_aggregateOf del: set_map)
  then show ?thesis by (simp add: parseFileAndGroupOrders_closed comp_def)
qed

section \<open>Properties of dropped rows\<close>


lemma headers_sheetRows [simp]: "headers E (ws\<lparr>sheetRows := rs\<rparr>) = headers E ws"
  by (simp add: headers_def fun_eq_iff)

lemma eachCell_sheetRows [simp]: "eachCell E (ws\<lparr>sheetRows := rs\<rparr>) = eachCell E ws"
  by (simp add: eachCell_def fun_eq_iff)

lemma rowDataOf_sheetRows [simp]: "rowDataOf E (ws\<lparr>sheetRows := rs\<rparr>) = rowDataOf E ws"
  by (simp add: rowDataOf_def fun_eq_iff)

lemma eachRow_sheetRows [simp]: "eachRow E (ws\<lparr>sheetRows := rs\<rparr>) = eachRow E ws"
  by (simp add: eachRow_def fun_eq_iff)

lemma parse_rows:
  "parseFileAndGroupOrders E (ws\<lparr>sheetRows := rs\<rparr>) =
     map (aggregateOf E ws (filter (survives E ws) rs))
       (firsts (map (rowBill E ws) (filter (survives E ws) rs)))"
  by (simp add: parseFileAndGroupOrders_def groupRows_def eachRow_loop comp_def)

lemma eachRow_dropped:
  "missingCritical (rowDataOf E ws r) \<Longrightarrow>
   eachRow E ws r g =
     (if rowNumber r = 1 \<or> \<not> hasValues r then g
      else g\<lparr>warnings := warnings g @ [rowNumber r]\<rparr>)"
  by (simp add: eachRow_def Let_def)

lemma dropped_not_survives: "missingCritical (rowDataOf E ws r) \<Longrightarrow> \<not> survives E ws r"
  by (simp add: survives_def)

lemma parse_without_dropped:
  "missingCritical (rowDataOf E ws r) \<Longrightarrow>
   parseFileAndGroupOrders E (ws\<lparr>sheetRows := before @ r # after\<rparr>) =
   parseFileAndGroupOrders E (ws\<lparr>sheetRows := before @ after\<rparr>)"
  by (simp add: parse_rows dropped_not_survives)

lemma absent_missingCritical:
  "m ''bill_number'' = None \<or> m ''order_total_amount'' = None \<Longrightarrow> missingCritical m"
  by (auto simp: missingCritical_def getProp_def)

lemma falsy_missingCritical:
  "getProp m ''order_total_amount'' = JNum 0 \<or> getProp m ''order_total_amount'' = JStr []
   \<Longrightarrow> missingCritical m"
  by (auto simp: missingCritical_def)

subsection \<open>what a run can persist\<close>

lemma processOrder_persisted:
  "persisted (db (processOrder E od st)) b \<Longrightarrow>
   persisted (db st) b \<or> b = attr od ''bill_number''"
proof (rule processOrder_cases [of E st od])
  fix e assume "orderTransaction E (db st) od = Inl e"
    and "persisted (db (processOrder E od st)) b"
  then show ?thesis by (simp add: processOrder_failed)
next
  fix w assume "orderTransaction E (db st) od = Inr (RolledBack w)"
    and "persisted (db (processOrder E od st)) b"
  then show ?thesis by (simp add: processOrder_skipped)
next
  fix w assume c: "orderTransaction E (db st) od = Inr (Committed w)"
    and p: "persisted (db (processOrder E od st)) b"
  from orderTransaction_cases [OF c] obtain newOrder where
    "orders w = orders (db st) @ [newOrder]" "bill_number newOrder = attr od ''bill_number''"
    by (auto split: if_splits)
  with p show ?thesis by (auto simp: processOrder_committed [OF c] persisted_def)
qed

lemma fold_processOrder_persisted:
  "persisted (db (fold (processOrder E) ods st)) b \<Longrightarrow>
   persisted (db st) b \<or> b \<in> set (map (\<lambda>a. attr a ''bill_number'') ods)"
proof (induction ods arbitrary: st)
  case Nil
  then show ?case by simp
next
  case (Cons od ods)
  from Cons.IH [of "processOrder E od st"] Cons.prems
  have "persisted (db (processOrder E od st)) b \<or> b \<in> set (map (\<lambda>a. attr a ''bill_number'') ods)"
    by simp
  with processOrder_persisted [of E od st b] show ?case by auto
qed

lemma processOrderFile_persisted:
  assumes "persisted (snd (processOrderFile E ws s jobSummary)) b"
  shows "persisted s b
         \<or> b \<in> set (map (\<lambda>a. attr a ''bill_number'') (parseFileAndGroupOrders E ws))"
proof -
  let ?st = "\<lparr>db = s, nSuccessful = 0, nSkipped = 0, nFailed = 0,
             job = jobSummary\<lparr>totalProcessed := length (parseFileAndGroupOrders E ws)\<rparr>\<rparr>"
  from assms have "persisted (db (fold (processOrder E) (parseFileAndGroupOrders E ws) ?st)) b"
    by (simp add: processOrderFile_def processOrders_def Let_def)
  from fold_processOrder_persisted [OF this] show ?thesis by simp
qed

section \<open>Properties of the merge\<close>


lemma merge_result:
  assumes d: "distinctCustomers s"
    and p: "normalizePhone (attr od ''phone'') = Inr p"
    and f: "findCustomer E s p (orderEmail E od) = Inr (Some found)"
    and u: "\<not> rejects E (UpdateCustomer (cid found))"
  shows "findOrCreateCustomer E s od =
     Inr (customerUpdateFields od found p (orderEmail E od) found,
          s\<lparr>customers :=
              map (\<lambda>r. if r = found
                        then customerUpdateFields od found p (orderEmail E od) found else r)
                (customers s)\<rparr>)"
proof -
  have mem: "found \<in> set (customers s)" using f by (rule findCustomer_mem)
  have "map (\<lambda>r. if cid r = cid found
                  then customerUpdateFields od found p (orderEmail E od) r else r) (customers s)
        = map (\<lambda>r. if r = found
                  then customerUpdateFields od found p (orderEmail E od) found else r)
            (customers s)"
    using d mem by (intro update_distinct) (simp add: distinctCustomers_def)
  with p f u show ?thesis
    by (simp add: findOrCreateCustomer_def updateCustomer_def call_ok Let_def)
qed

lemma findCustomer_by_phone:
  assumes "p \<noteq> []" and "find (\<lambda>c. JSON_CONTAINS (all_phones c) p) (customers s) = Some c1"
    and "\<not> rejects E (FindCustomerByPhone p)"
  shows "findCustomer E s p m = Inr (Some c1)"
  using assms by (simp add: findCustomer_def call_ok)

lemma findCustomer_by_email:
  assumes "p = [] \<or> (find (\<lambda>c. JSON_CONTAINS (all_phones c) p) (customers s) = None
                      \<and> \<not> rejects E (FindCustomerByPhone p))"
  shows "findCustomer E s p m =
     (if m \<noteq> [] then call E (FindCustomerByEmail m) (find (\<lambda>c. email c = m) (customers s))
      else Inr None)"
  using assms by (auto simp: findCustomer_def call_ok)

section \<open>Properties of the counters\<close>


lemma processOrders_counts:
  "nSuccessful (processOrders E ods s j) + nSkipped (processOrders E ods s j)
     + nFailed (processOrders E ods s j) = length ods"
  using fold_processOrder_counts [of E ods] by (simp add: processOrders_def)

lemma processOrders_synced:
  "successfulInserts (job (processOrders E ods s initialSummary))
     = nSuccessful (processOrders E ods s initialSummary)
   \<and> skippedDuplicates (job (processOrders E ods s initialSummary))
     = nSkipped (processOrders E ods s initialSummary)
   \<and> failedInserts (job (processOrders E ods s initialSummary))
     = nFailed (processOrders E ods s initialSummary)"
proof -
  let ?st = "\<lparr>db = s, nSuccessful = 0, nSkipped = 0, nFailed = 0,
             job = initialSummary\<lparr>totalProcessed := length ods\<rparr>\<rparr>"
  have "synced ?st" by (simp add: synced_def initialSummary_def)
  then have "synced (fold (processOrder E) ods ?st)" by (rule fold_processOrder_synced)
  then show ?thesis by (simp add: processOrders_def synced_def)
qed

lemma processOrders_total: "totalProcessed (job (processOrders E ods s j)) = length ods"
  by (simp add: processOrders_def fold_processOrder_total)

lemma processOrder_one_counter:
  "(nSuccessful (processOrder E od st) = nSuccessful st + 1
      \<and> nSkipped (processOrder E od st) = nSkipped st
      \<and> nFailed (processOrder E od st) = nFailed st)
   \<or> (nSuccessful (processOrder E od st) = nSuccessful st
      \<and> nSkipped (processOrder E od st) = nSkipped st + 1
      \<and> nFailed (processOrder E od st) = nFailed st)
   \<or> (nSuccessful (processOrder E od st) = nSuccessful st
      \<and> nSkipped (processOrder E od st) = nSkipped st
      \<and> nFailed (processOrder E od st) = nFailed st + 1)"
  by (rule processOrder_cases [of E st od])
     (simp_all add: processOrder_failed processOrder_skipped processOrder_committed)

section \<open>How an exception of a step reaches the handler\<close>


lemma stageItems_product_raises:
  "it \<in> set its \<Longrightarrow> \<not> truthy (product_id it) \<Longrightarrow> \<exists>e. stageItems E s orderId its = Inl e"
proof (induction its arbitrary: s)
  case Nil
  then show ?case by simp
next
  case (Cons a its)
  show ?case
  proof (cases "findOrCreateProduct E s a")
    case (Inl e)
    then show ?thesis by simp
  next
    case (Inr r)
    obtain p s1 where r: "r = (p, s1)" by (cases r)
    have "a \<noteq> it"
    proof
      assume "a = it"
      with Cons.prems(2) have "findOrCreateProduct E s a = Inl MissingProductId"
        by (simp add: findOrCreateProduct_def Let_def)
      with Inr show False by simp
    qed
    with Cons.prems have "it \<in> set its" by simp
    from Cons.IH [OF this Cons.prems(2), of s1] obtain e where
      "stageItems E s1 orderId its = Inl e" ..
    with Inr r show ?thesis by simp
  qed
qed

lemma no_existing_order:
  assumes "findOrCreateCustomer E s od = Inr (c, s1)"
    and "findOrder E s (attr od ''bill_number'') = None"
  shows "findOrder E s1 (attr od ''bill_number'') = None"
proof -
  have "orders s1 = orders s" using assms(1) by (rule findOrCreateCustomer_tables)
  with assms(2) show ?thesis by (simp add: findOrder_def)
qed

lemma orderTransaction_create_raises:
  assumes "findOrCreateCustomer E s od = Inr (c, s1)"
    and "\<not> rejects E (FindOrder (attr od ''bill_number''))"
    and "findOrder E s (attr od ''bill_number'') = None"
    and "createOrder E s1 od c = Inl e"
  shows "orderTransaction E s od = Inl e"
  using assms(1,2,4) no_existing_order [OF assms(1,3)]
  by (simp add: orderTransaction_def call_ok)

lemma orderTransaction_stage_raises:
  assumes "findOrCreateCustomer E s od = Inr (c, s1)"
    and "\<not> rejects E (FindOrder (attr od ''bill_number''))"
    and "findOrder E s (attr od ''bill_number'') = None"
    and "createOrder E s1 od c = Inr (newOrder, s2)"
    and "stageItems E s2 (oid newOrder) (items od) = Inl e"
  shows "orderTransaction E s od = Inl e"
  using assms(1,2,4,5) no_existing_order [OF assms(1,3)]
  by (simp add: orderTransaction_def call_ok)

lemma orderTransaction_bulk_raises:
  assumes "findOrCreateCustomer E s od = Inr (c, s1)"
    and "\<not> rejects E (FindOrder (attr od ''bill_number''))"
    and "findOrder E s (attr od ''bill_number'') = None"
    and "createOrder E s1 od c = Inr (newOrder, s2)"
    and "stageItems E s2 (oid newOrder) (items od) = Inr (staged, s3)"
    and "bulkCreate E s3 (oid newOrder) staged = Inl e"
  shows "orderTransaction E s od = Inl e"
  using assms(1,2,4,5,6) no_existing_order [OF assms(1,3)]
  by (simp add: orderTransaction_def call_ok)

section \<open>Properties of a second run\<close>










section \<open>Phone normalization: the claim\<close>

text \<open>
  C4. On a string, phone normalization keeps exactly the digits, in order, and drops a
  leading "91" exactly when more than ten digits are left and they start with "91";
  the result holds digits only. "+91 98765-43210" and "9876543210" both give
  "9876543210"; the empty string and an absent value (undefined or null) give the empty
  string.
\<close>

theorem normalizePhone_spec:
  "(\<exists>p. normalizePhone (JStr s) = Inr p \<and> (\<forall>c \<in> set p. is_digit c) \<and>
        (if length (filter is_digit s) > 10 \<and> take 2 (filter is_digit s) = ''91''
         then ''91'' @ p = filter is_digit s else p = filter is_digit s))
   \<and> normalizePhone (JStr ''+91 98765-43210'') = Inr ''9876543210''
   \<and> normalizePhone (JStr ''9876543210'') = Inr ''9876543210''
   \<and> normalizePhone (JStr '''') = Inr ''''
   \<and> normalizePhone JUndefined = Inr ''''
   \<and> normalizePhone JNull = Inr ''''"
proof -
  let ?d = "filter is_digit s"
  obtain p where p: "normalizePhone (JStr s) = Inr p"
    by (simp add: normalizePhone_string)
  have dig: "\<forall>c \<in> set p. is_digit c"
    using p by (rule normalizePhone_digits)
  have shape: "if length ?d > 10 \<and> take 2 ?d = ''91'' then ''91'' @ p = ?d else p = ?d"
  proof (cases "length ?d > 10 \<and> take 2 ?d = ''91''")
    case True
    then have "p = drop 2 ?d"
      using p by (simp add: normalizePhone_string startsWith_91 substring_def)
    moreover have "take 2 ?d @ drop 2 ?d = ?d" by (rule append_take_drop_id)
    ultimately show ?thesis using True by simp
  next
    case False
    then have "p = ?d"
      using p by (auto simp: normalizePhone_string startsWith_91)
    with False show ?thesis by simp
  qed
  have e1: "normalizePhone (JStr ''+91 98765-43210'') = Inr ''9876543210''"
    by (simp add: normalizePhone_def is_digit_def startsWith_def substring_def)
  have e2: "normalizePhone (JStr ''9876543210'') = Inr ''9876543210''"
    by (simp add: normalizePhone_def is_digit_def startsWith_def substring_def)
  have e3: "normalizePhone (JStr '''') = Inr ''''"
    "normalizePhone JUndefined = Inr ''''" "normalizePhone JNull = Inr ''''"
    by (simp_all add: normalizePhone_def)
  from p dig shape e1 e2 e3 show ?thesis by blast
qed

theorem normalizePhone_spec_witness:
  "normalizePhone (JStr ''0091-98765 43210'') = Inr ''00919876543210''
   \<and> normalizePhone (JStr ''91 98765 43210'') = Inr ''9876543210''
   \<and> normalizePhone (JStr ''91234 5678'') = Inr ''912345678''"
  using normalizePhone_spec [of "''0091-98765 43210''"]
    normalizePhone_spec [of "''91 98765 43210''"]
    normalizePhone_spec [of "''91234 5678''"]
  by (simp add: is_digit_def)

section \<open>Grouping: the claims\<close>

text \<open>
  C6. The surviving rows of one bill number make exactly one aggregate, whatever rows of
  other bill numbers stand between them: the bill numbers of the aggregates are the first
  occurrences of the bill numbers of the surviving rows, in the order of first appearance
  and without repetition, and the items of each aggregate are the line items of all
  surviving rows with its bill number, in the order met.
\<close>

theorem grouping_by_bill_number:
  "(let surv = filter (survives E ws) (sheetRows ws);
        out = parseFileAndGroupOrders E ws
    in map (\<lambda>a. attr a ''bill_number'') out = firsts (map (rowBill E ws) surv)
       \<and> distinct (map (\<lambda>a. attr a ''bill_number'') out)
       \<and> (\<forall>a \<in> set out.
            items a = map (\<lambda>r. itemOf (rowDataOf E ws r))
                        (filter (\<lambda>r. rowBill E ws r = attr a ''bill_number'') surv)))"
proof -
  let ?surv = "filter (survives E ws) (sheetRows ws)"
  let ?out = "parseFileAndGroupOrders E ws"
  have bills: "map (\<lambda>a. attr a ''bill_number'') ?out = firsts (map (rowBill E ws) ?surv)"
    by (rule bills_grouped)
  have dist: "distinct (map (\<lambda>a. attr a ''bill_number'') ?out)"
    unfolding bills by (rule distinct_firsts)
  have its: "\<forall>a \<in> set ?out.
      items a = map (\<lambda>r. itemOf (rowDataOf E ws r))
                  (filter (\<lambda>r. rowBill E ws r = attr a ''bill_number'') ?surv)"
  proof
    fix a assume "a \<in> set ?out"
    then have "a \<in> aggregateOf E ws ?surv ` set (firsts (map (rowBill E ws) ?surv))"
      by (simp add: parseFileAndGroupOrders_closed)
    then obtain b where "b \<in> set (firsts (map (rowBill E ws) ?surv))"
      and a: "a = aggregateOf E ws ?surv b" by blast
    then have b: "b \<in> set (map (rowBill E ws) ?surv)" by (simp only: set_firsts)
    from attr_aggregateOf [OF b] a have "attr a ''bill_number'' = b" by simp
    with a show "items a = map (\<lambda>r. itemOf (rowDataOf E ws r))
                  (filter (\<lambda>r. rowBill E ws r = attr a ''bill_number'') ?surv)"
      by (simp add: aggregateOf_def)
  qed
  from bills dist its show ?thesis by (simp add: Let_def)
qed

theorem grouping_by_bill_number_witness:
  "map (\<lambda>a. attr a ''bill_number'') (parseFileAndGroupOrders quietEngine sampleSheet)
     = [JStr ''B1'', JStr ''B2'']
   \<and> map (\<lambda>a. map item_hash (items a)) (parseFileAndGroupOrders quietEngine sampleSheet)
     = [ [JStr ''i1'', JStr ''i3''], [JStr ''i2''] ]"
proof -
  have bills: "firsts (map (rowBill quietEngine sampleSheet)
                  (filter (survives quietEngine sampleSheet) (sheetRows sampleSheet)))
               = [JStr ''B1'', JStr ''B2'']"
    by code_simp
  have its: "map (\<lambda>a. map item_hash (items a)) (parseFileAndGroupOrders quietEngine sampleSheet)
     = [ [JStr ''i1'', JStr ''i3''], [JStr ''i2''] ]"
    by code_simp
  from grouping_by_bill_number [of quietEngine sampleSheet] bills its
  show ?thesis by (simp add: Let_def)
qed

text \<open>
  C7. A row without bill number or without total amount is dropped: the turn of the loop
  changes nothing but the list of warnings (and not even that for the header row or a row
  without values), and raises nothing; the aggregates, with their items, and the outcome of
  the whole run (the counters of the job and the store) are those of the sheet without the
  row.
\<close>

theorem rows_missing_critical_dropped:
  assumes "rowDataOf E ws r ''bill_number'' = None
           \<or> rowDataOf E ws r ''order_total_amount'' = None"
  shows "eachRow E ws r g =
           (if rowNumber r = 1 \<or> \<not> hasValues r then g
            else g\<lparr>warnings := warnings g @ [rowNumber r]\<rparr>)
         \<and> parseFileAndGroupOrders E (ws\<lparr>sheetRows := before @ r # after\<rparr>)
             = parseFileAndGroupOrders E (ws\<lparr>sheetRows := before @ after\<rparr>)
         \<and> processOrderFile E (ws\<lparr>sheetRows := before @ r # after\<rparr>) s jobSummary
             = processOrderFile E (ws\<lparr>sheetRows := before @ after\<rparr>) s jobSummary"
proof -
  from assms have m: "missingCritical (rowDataOf E ws r)" by (rule absent_missingCritical)
  have p: "parseFileAndGroupOrders E (ws\<lparr>sheetRows := before @ r # after\<rparr>)
             = parseFileAndGroupOrders E (ws\<lparr>sheetRows := before @ after\<rparr>)"
    using m by (rule parse_without_dropped)
  have "processOrderFile E (ws\<lparr>sheetRows := before @ r # after\<rparr>) s jobSummary
             = processOrderFile E (ws\<lparr>sheetRows := before @ after\<rparr>) s jobSummary"
    unfolding processOrderFile_def p ..
  with p eachRow_dropped [OF m] show ?thesis by blast
qed

theorem rows_missing_critical_dropped_witness:
  "rowDataOf quietEngine sampleSheet (dataRow 5 [(1, JStr ''B3''), (3, JStr ''i4'')])
     ''order_total_amount'' = None
   \<and> eachRow quietEngine sampleSheet (dataRow 5 [(1, JStr ''B3''), (3, JStr ''i4'')])
       \<lparr>ordersMap = [], warnings = []\<rparr> = \<lparr>ordersMap = [], warnings = [5]\<rparr>
   \<and> processOrderFile quietEngine sampleSheet emptyStore initialSummary
     = processOrderFile quietEngine
         (sampleSheet\<lparr>sheetRows := take 4 (sheetRows sampleSheet) @ drop 5 (sheetRows sampleSheet)\<rparr>)
         emptyStore initialSummary"
proof -
  let ?r = "dataRow 5 [(1, JStr ''B3''), (3, JStr ''i4'')]"
  have absent: "rowDataOf quietEngine sampleSheet ?r ''order_total_amount'' = None"
    by code_simp
  have same: "sampleSheet\<lparr>sheetRows :=
                take 4 (sheetRows sampleSheet) @ ?r # drop 5 (sheetRows sampleSheet)\<rparr>
              = sampleSheet"
    by (simp add: sampleSheet_def)
  have num: "rowNumber ?r = 5" "hasValues ?r" by (simp_all add: dataRow_def)
  from rows_missing_critical_dropped [of quietEngine sampleSheet ?r
      "\<lparr>ordersMap = [], warnings = []\<rparr>" "take 4 (sheetRows sampleSheet)"
      "drop 5 (sheetRows sampleSheet)" emptyStore initialSummary]
    absent same num
  show ?thesis by simp
qed

text \<open>
  C10. A row whose total amount is present but is the number 0 or the empty string is
  dropped exactly as a row of the same number without total amount is; and when every row
  of a bill number carries the total 0, no aggregate has this bill number, and a run leaves
  the bill number unpersisted if it was so before.
\<close>

theorem falsy_total_dropped:
  "(getProp (rowDataOf E ws r) ''order_total_amount'' = JNum 0
      \<or> getProp (rowDataOf E ws r) ''order_total_amount'' = JStr []
    \<longrightarrow> rowNumber r' = rowNumber r \<and> hasValues r' = hasValues r
        \<and> rowDataOf E ws r' ''order_total_amount'' = None
    \<longrightarrow> eachRow E ws r g = eachRow E ws r' g
        \<and> eachRow E ws r g =
            (if rowNumber r = 1 \<or> \<not> hasValues r then g
             else g\<lparr>warnings := warnings g @ [rowNumber r]\<rparr>))
   \<and> ((\<forall>x \<in> set (sheetRows ws).
          rowBill E ws x = b \<longrightarrow> getProp (rowDataOf E ws x) ''order_total_amount'' = JNum 0)
      \<longrightarrow> b \<notin> set (map (\<lambda>a. attr a ''bill_number'') (parseFileAndGroupOrders E ws))
          \<and> (\<not> persisted s b \<longrightarrow> \<not> persisted (snd (processOrderFile E ws s jobSummary)) b))"
proof -
  have one: "eachRow E ws r g = eachRow E ws r' g
        \<and> eachRow E ws r g =
            (if rowNumber r = 1 \<or> \<not> hasValues r then g
             else g\<lparr>warnings := warnings g @ [rowNumber r]\<rparr>)"
    if f: "getProp (rowDataOf E ws r) ''order_total_amount'' = JNum 0
           \<or> getProp (rowDataOf E ws r) ''order_total_amount'' = JStr []"
      and r': "rowNumber r' = rowNumber r \<and> hasValues r' = hasValues r
               \<and> rowDataOf E ws r' ''order_total_amount'' = None"
  proof -
    from f have m: "missingCritical (rowDataOf E ws r)" by (rule falsy_missingCritical)
    from r' have m': "missingCritical (rowDataOf E ws r')" by (simp add: absent_missingCritical)
    from eachRow_dropped [OF m, of g] eachRow_dropped [OF m', of g] r' show ?thesis by simp
  qed
  have two: "b \<notin> set (map (\<lambda>a. attr a ''bill_number'') (parseFileAndGroupOrders E ws))
          \<and> (\<not> persisted s b \<longrightarrow> \<not> persisted (snd (processOrderFile E ws s jobSummary)) b)"
    if z: "\<forall>x \<in> set (sheetRows ws).
          rowBill E ws x = b \<longrightarrow> getProp (rowDataOf E ws x) ''order_total_amount'' = JNum 0"
  proof -
    have "b \<notin> set (map (rowBill E ws) (filter (survives E ws) (sheetRows ws)))"
    proof
      assume "b \<in> set (map (rowBill E ws) (filter (survives E ws) (sheetRows ws)))"
      then obtain x where x: "x \<in> set (sheetRows ws)" "survives E ws x" "rowBill E ws x = b"
        by auto
      with z have "getProp (rowDataOf E ws x) ''order_total_amount'' = JNum 0" by blast
      then have "missingCritical (rowDataOf E ws x)" by (simp add: falsy_missingCritical)
      with x(2) show False by (simp add: survives_def)
    qed
    then have nb: "b \<notin> set (map (\<lambda>a. attr a ''bill_number'') (parseFileAndGroupOrders E ws))"
      by (simp add: bills_grouped set_firsts del: set_map)
    with processOrderFile_persisted [of E ws s jobSummary b] show ?thesis by blast
  qed
  from one two show ?thesis by blast
qed

theorem falsy_total_dropped_witness:
  "eachRow quietEngine sampleSheet
       (dataRow 6 [(1, JStr ''B4''), (2, JNum 0), (3, JStr ''i5'')])
       \<lparr>ordersMap = [], warnings = []\<rparr>
     = eachRow quietEngine sampleSheet (dataRow 6 [(1, JStr ''B4''), (3, JStr ''i5'')])
         \<lparr>ordersMap = [], warnings = []\<rparr>
   \<and> JStr ''B4'' \<notin> set (map (\<lambda>a. attr a ''bill_number'')
                          (parseFileAndGroupOrders quietEngine sampleSheet))
   \<and> \<not> persisted (snd (processOrderFile quietEngine sampleSheet emptyStore initialSummary))
         (JStr ''B4'')"
proof -
  let ?r = "dataRow 6 [(1, JStr ''B4''), (2, JNum 0), (3, JStr ''i5'')]"
  let ?r' = "dataRow 6 [(1, JStr ''B4''), (3, JStr ''i5'')]"
  have zero: "getProp (rowDataOf quietEngine sampleSheet ?r) ''order_total_amount'' = JNum 0"
    by code_simp
  have absent: "rowDataOf quietEngine sampleSheet ?r' ''order_total_amount'' = None"
    by code_simp
  have num: "rowNumber ?r' = rowNumber ?r" "hasValues ?r' = hasValues ?r"
    by (simp_all add: dataRow_def)
  have every: "\<forall>x \<in> set (sheetRows sampleSheet).
      rowBill quietEngine sampleSheet x = JStr ''B4'' \<longrightarrow>
      getProp (rowDataOf quietEngine sampleSheet x) ''order_total_amount'' = JNum 0"
    by code_simp
  have fresh: "\<not> persisted emptyStore (JStr ''B4'')"
    by (simp add: persisted_def emptyStore_def)
  from falsy_total_dropped [of quietEngine sampleSheet ?r ?r'
      "\<lparr>ordersMap = [], warnings = []\<rparr>" "JStr ''B4''" emptyStore initialSummary]
    zero absent num every fresh
  show ?thesis by simp
qed

section \<open>Customer resolution: the claims\<close>

text \<open>
  C3, at an input where the code departs from it. The store holds two profiles as the
  import writes them: profile 1, created for the phone 9876543210 and the email a@x.in,
  and profile 2 with the email b@x.in. The order names the phone of profile 1 and the
  email of profile 2. The phone is on the list of profile 1, yet the phone search finds
  nobody, because the column holds the text of the list and not the list; the email search
  then finds profile 2. The order is merged into profile 2, which receives the phone and
  the party name of the order, and profile 1 is left as it was. The same happens on the
  store that a run of the import on the sample worksheet leaves, whose two profiles the
  import itself created: the order is merged into the profile with key 2.
\<close>

theorem phone_profile_not_found:
  "normalizePhone (attr crossOrder ''phone'') = Inr ''9876543210''
   \<and> ''9876543210''
       \<in> set (parsedList (all_phones (profile 1 ''a@x.in'' [''9876543210''])))
   \<and> \<not> JSON_CONTAINS (all_phones (profile 1 ''a@x.in'' [''9876543210''])) ''9876543210''
   \<and> findCustomer quietEngine twoProfiles ''9876543210'' (orderEmail quietEngine crossOrder)
       = Inr (Some (profile 2 ''b@x.in'' []))
   \<and> findOrCreateCustomer quietEngine twoProfiles crossOrder
       = Inr ((profile 2 ''b@x.in'' [])
                \<lparr>all_phones := JsonText [''9876543210''], party_name := JStr ''Asha''\<rparr>,
              twoProfiles
                \<lparr>customers :=
                   [profile 1 ''a@x.in'' [''9876543210''],
                    (profile 2 ''b@x.in'' [])
                      \<lparr>all_phones := JsonText [''9876543210''],
                         party_name := JStr ''Asha''\<rparr>]\<rparr>)
   \<and> map email (customers (snd (importOrders quietEngine sampleSheet emptyStore)))
       = [''a@x.in'', ''b@x.in'']
   \<and> map all_phones (customers (snd (importOrders quietEngine sampleSheet emptyStore)))
       = [JsonText [''9876543210''], JsonText []]
   \<and> map_sum id (cid \<circ> fst)
         (findOrCreateCustomer quietEngine
            (snd (importOrders quietEngine sampleSheet emptyStore)) crossOrder)
       = Inr 2
   \<and> map_sum id (map all_phones \<circ> customers \<circ> snd)
         (findOrCreateCustomer quietEngine
            (snd (importOrders quietEngine sampleSheet emptyStore)) crossOrder)
       = Inr [JsonText [''9876543210''], JsonText [''9876543210'']]"
  by code_simp

text \<open>
  C5. A merge into an existing profile, when the update is not rejected, leaves every
  stored phone and email in place and appends the new normalized phone (the new trimmed
  email) exactly when it is non-empty and not yet in the list; the primary email and the
  key of the profile are unchanged, and no other row of the table is touched. The lists
  are those the code reads from the two columns; the profile is the one the two searches
  return, by phone or by email.
\<close>

theorem merge_only_grows:
  assumes "distinctCustomers s"
    and "normalizePhone (attr od ''phone'') = Inr p"
    and "findCustomer E s p (orderEmail E od) = Inr (Some found)"
    and "\<not> rejects E (UpdateCustomer (cid found))"
  shows "\<exists>c' s1. findOrCreateCustomer E s od = Inr (c', s1)
     \<and> parsedList (all_phones c') =
         parsedList (all_phones found)
           @ (if p \<noteq> [] \<and> p \<notin> set (parsedList (all_phones found)) then [p] else [])
     \<and> parsedList (all_emails c') =
         parsedList (all_emails found)
           @ (if orderEmail E od \<noteq> [] \<and> orderEmail E od \<notin> set (parsedList (all_emails found))
              then [orderEmail E od] else [])
     \<and> email c' = email found \<and> cid c' = cid found
     \<and> customers s1 = map (\<lambda>r. if r = found then c' else r) (customers s)"
  using merge_result [OF assms]
  by (simp add: customerUpdateFields_sel customerUpdateFields_lists)

theorem merge_only_grows_witness:
  "\<exists>c' s1. findOrCreateCustomer quietEngine twoProfiles crossOrder = Inr (c', s1)
      \<and> parsedList (all_phones c') = [''9876543210'']
      \<and> parsedList (all_emails c') = [''b@x.in'']
      \<and> email c' = ''b@x.in''
      \<and> map email (customers s1) = [''a@x.in'', ''b@x.in'']"
proof -
  let ?c1 = "profile 1 ''a@x.in'' [''9876543210'']"
  let ?c2 = "profile 2 ''b@x.in'' []"
  have d: "distinctCustomers twoProfiles"
    by code_simp
  have p: "normalizePhone (attr crossOrder ''phone'') = Inr ''9876543210''"
    by code_simp
  have f: "findCustomer quietEngine twoProfiles ''9876543210''
             (orderEmail quietEngine crossOrder) = Inr (Some ?c2)"
    by code_simp
  have r: "\<not> rejects quietEngine (UpdateCustomer (cid ?c2))"
    by (simp add: quietEngine_def)
  have m: "orderEmail quietEngine crossOrder = ''b@x.in''"
    by code_simp
  have v: "parsedList (all_phones ?c2) = []" "parsedList (all_emails ?c2) = [''b@x.in'']"
    "email ?c2 = ''b@x.in''" "customers twoProfiles = [?c1, ?c2]"
    "email ?c1 = ''a@x.in''"
    by (simp_all add: profile_def twoProfiles_def)
  from merge_only_grows [OF d p f r] obtain c' s1 where
    "findOrCreateCustomer quietEngine twoProfiles crossOrder = Inr (c', s1)"
    "parsedList (all_phones c') = [''9876543210'']" "parsedList (all_emails c') = [''b@x.in'']"
    "email c' = ''b@x.in''"
    "customers s1 = map (\<lambda>r. if r = ?c2 then c' else r) (customers twoProfiles)"
    unfolding m v by auto
  moreover have "?c1 \<noteq> ?c2"
    by code_simp
  ultimately show ?thesis
    unfolding v(4) using v(5) by (intro exI [of _ c'] exI [of _ s1]) simp
qed

section \<open>The run: the claims\<close>

text \<open>
  C2. When the transaction of an aggregate raises, the committed store is what it was
  before (no order row, no item row and no customer write of this aggregate remain), the
  failed counter alone goes up by one, and the loop goes on with the next aggregate. An
  exception of customer resolution is an exception of the transaction, and so is, once
  the order lookup has found nothing, an exception of the order insert, of product
  resolution or of the bulk insert of the items.
\<close>

theorem failure_rolls_back:
  "(orderTransaction E (db st) od = Inl e \<longrightarrow>
      db (processOrder E od st) = db st
      \<and> nFailed (processOrder E od st) = nFailed st + 1
      \<and> failedInserts (job (processOrder E od st)) = nFailed st + 1
      \<and> nSuccessful (processOrder E od st) = nSuccessful st
      \<and> nSkipped (processOrder E od st) = nSkipped st
      \<and> (persisted (db (processOrder E od st)) (attr od ''bill_number'')
           \<longrightarrow> persisted (db st) (attr od ''bill_number''))
      \<and> fold (processOrder E) (od # rest) st
          = fold (processOrder E) rest
              (st\<lparr>nFailed := nFailed st + 1,
                  job := (job st)\<lparr>failedInserts := nFailed st + 1\<rparr>\<rparr>))
   \<and> (findOrCreateCustomer E s od = Inl e \<longrightarrow> orderTransaction E s od = Inl e)
   \<and> (findOrCreateCustomer E s od = Inr (c, s1)
        \<and> \<not> rejects E (FindOrder (attr od ''bill_number''))
        \<and> findOrder E s (attr od ''bill_number'') = None
      \<longrightarrow> (createOrder E s1 od c = Inl e \<longrightarrow> orderTransaction E s od = Inl e)
        \<and> (createOrder E s1 od c = Inr (newOrder, s2)
            \<longrightarrow> (stageItems E s2 (oid newOrder) (items od) = Inl e
                   \<longrightarrow> orderTransaction E s od = Inl e)
              \<and> (stageItems E s2 (oid newOrder) (items od) = Inr (staged, s3)
                    \<and> bulkCreate E s3 (oid newOrder) staged = Inl e
                   \<longrightarrow> orderTransaction E s od = Inl e)))"
proof -
  have a: "db (processOrder E od st) = db st
      \<and> nFailed (processOrder E od st) = nFailed st + 1
      \<and> failedInserts (job (processOrder E od st)) = nFailed st + 1
      \<and> nSuccessful (processOrder E od st) = nSuccessful st
      \<and> nSkipped (processOrder E od st) = nSkipped st
      \<and> (persisted (db (processOrder E od st)) (attr od ''bill_number'')
           \<longrightarrow> persisted (db st) (attr od ''bill_number''))
      \<and> fold (processOrder E) (od # rest) st
          = fold (processOrder E) rest
              (st\<lparr>nFailed := nFailed st + 1,
                  job := (job st)\<lparr>failedInserts := nFailed st + 1\<rparr>\<rparr>)"
    if "orderTransaction E (db st) od = Inl e"
    using that by (simp add: processOrder_failed)
  have b: "findOrCreateCustomer E s od = Inl e \<longrightarrow> orderTransaction E s od = Inl e"
    by (simp add: orderTransaction_raises)
  have c: "orderTransaction E s od = Inl e"
    if "findOrCreateCustomer E s od = Inr (c, s1)"
      "\<not> rejects E (FindOrder (attr od ''bill_number''))"
      "findOrder E s (attr od ''bill_number'') = None"
      "createOrder E s1 od c = Inl e"
    using that by (rule orderTransaction_create_raises)
  have d: "orderTransaction E s od = Inl e"
    if "findOrCreateCustomer E s od = Inr (c, s1)"
      "\<not> rejects E (FindOrder (attr od ''bill_number''))"
      "findOrder E s (attr od ''bill_number'') = None"
      "createOrder E s1 od c = Inr (newOrder, s2)"
      "stageItems E s2 (oid newOrder) (items od) = Inl e"
    using that by (rule orderTransaction_stage_raises)
  have e: "orderTransaction E s od = Inl e"
    if "findOrCreateCustomer E s od = Inr (c, s1)"
      "\<not> rejects E (FindOrder (attr od ''bill_number''))"
      "findOrder E s (attr od ''bill_number'') = None"
      "createOrder E s1 od c = Inr (newOrder, s2)"
      "stageItems E s2 (oid newOrder) (items od) = Inr (staged, s3)"
      "bulkCreate E s3 (oid newOrder) staged = Inl e"
    using that by (rule orderTransaction_bulk_raises)
  show ?thesis
  proof (intro conjI impI)
    assume "orderTransaction E (db st) od = Inl e"
    note r = a [OF this]
    from r show "db (processOrder E od st) = db st" by simp
    from r show "nFailed (processOrder E od st) = nFailed st + 1" by simp
    from r show "failedInserts (job (processOrder E od st)) = nFailed st + 1" by simp
    from r show "nSuccessful (processOrder E od st) = nSuccessful st" by simp
    from r show "nSkipped (processOrder E od st) = nSkipped st" by simp
    from r show "fold (processOrder E) (od # rest) st
          = fold (processOrder E) rest
              (st\<lparr>nFailed := nFailed st + 1,
                  job := (job st)\<lparr>failedInserts := nFailed st + 1\<rparr>\<rparr>)" by blast
    assume "persisted (db (processOrder E od st)) (attr od ''bill_number'')"
    with r show "persisted (db st) (attr od ''bill_number'')" by simp
  next
    assume "findOrCreateCustomer E s od = Inl e"
    then show "orderTransaction E s od = Inl e" by (rule orderTransaction_raises)
  next
    assume "findOrCreateCustomer E s od = Inr (c, s1)
        \<and> \<not> rejects E (FindOrder (attr od ''bill_number''))
        \<and> findOrder E s (attr od ''bill_number'') = None"
      and "createOrder E s1 od c = Inl e"
    then show "orderTransaction E s od = Inl e" using c by blast
  next
    assume "findOrCreateCustomer E s od = Inr (c, s1)
        \<and> \<not> rejects E (FindOrder (attr od ''bill_number''))
        \<and> findOrder E s (attr od ''bill_number'') = None"
      and "createOrder E s1 od c = Inr (newOrder, s2)"
      and "stageItems E s2 (oid newOrder) (items od) = Inl e"
    then show "orderTransaction E s od = Inl e" using d by blast
  next
    assume "findOrCreateCustomer E s od = Inr (c, s1)
        \<and> \<not> rejects E (FindOrder (attr od ''bill_number''))
        \<and> findOrder E s (attr od ''bill_number'') = None"
      and "createOrder E s1 od c = Inr (newOrder, s2)"
      and "stageItems E s2 (oid newOrder) (items od) = Inr (staged, s3)
                    \<and> bulkCreate E s3 (oid newOrder) staged = Inl e"
    then show "orderTransaction E s od = Inl e" using e by blast
  qed
qed

theorem failure_rolls_back_witness:
  "orderTransaction failingEngine emptyStore itemOrder = Inl StorageError
   \<and> db (processOrder failingEngine itemOrder (runAt emptyStore)) = emptyStore
   \<and> nFailed (processOrder failingEngine itemOrder (runAt emptyStore)) = 1
   \<and> \<not> persisted (db (processOrder failingEngine itemOrder (runAt emptyStore))) (JStr ''B8'')
   \<and> orderTransaction quietEngine billedStore anonymousOrder = Inl MissingEmail
   \<and> orders (db (processOrder quietEngine itemOrder (runAt emptyStore)))
       = [\<lparr>oid = 1, bill_number = JStr ''B8'', order_number = JStr ''N8'', customerId = 1\<rparr>]"
proof -
  let ?E = failingEngine
  let ?c = "fst (projr (findOrCreateCustomer ?E emptyStore itemOrder))"
  let ?s1 = "snd (projr (findOrCreateCustomer ?E emptyStore itemOrder))"
  let ?o = "fst (projr (createOrder ?E ?s1 itemOrder ?c))"
  let ?s2 = "snd (projr (createOrder ?E ?s1 itemOrder ?c))"
  let ?staged = "fst (projr (stageItems ?E ?s2 (oid ?o) (items itemOrder)))"
  let ?s3 = "snd (projr (stageItems ?E ?s2 (oid ?o) (items itemOrder)))"
  have fc: "findOrCreateCustomer ?E emptyStore itemOrder = Inr (?c, ?s1)"
    by code_simp
  have fo: "\<not> rejects ?E (FindOrder (attr itemOrder ''bill_number''))"
    by code_simp
  have np: "\<not> persisted emptyStore (attr itemOrder ''bill_number'')"
    by code_simp
  have co: "createOrder ?E ?s1 itemOrder ?c = Inr (?o, ?s2)"
    by code_simp
  have si: "stageItems ?E ?s2 (oid ?o) (items itemOrder) = Inr (?staged, ?s3)"
    by code_simp
  have bc: "bulkCreate ?E ?s3 (oid ?o) ?staged = Inl StorageError"
    by code_simp
  note stage = failure_rolls_back [where E = ?E and s = emptyStore and od = itemOrder
      and e = StorageError and c = ?c and ?s1.0 = ?s1 and newOrder = ?o and ?s2.0 = ?s2
      and staged = ?staged and ?s3.0 = ?s3, THEN conjunct2, THEN conjunct2, rule_format]
  have nf: "findOrder ?E emptyStore (attr itemOrder ''bill_number'') = None"
    by code_simp
  from stage fc fo nf co si bc
  have t: "orderTransaction ?E emptyStore itemOrder = Inl StorageError"
    by blast
  have d: "db (runAt emptyStore) = emptyStore" "nFailed (runAt emptyStore) = 0"
    by (simp_all add: runAt_def)
  have b8: "attr itemOrder ''bill_number'' = JStr ''B8''"
    by code_simp
  note r = failure_rolls_back [where E = ?E and st = "runAt emptyStore"
      and od = itemOrder and e = StorageError and rest = "[]", THEN conjunct1, rule_format,
      unfolded d, OF t]
  from r np b8 d have undone: "db (processOrder ?E itemOrder (runAt emptyStore)) = emptyStore"
    "nFailed (processOrder ?E itemOrder (runAt emptyStore)) = 1"
    "\<not> persisted (db (processOrder ?E itemOrder (runAt emptyStore))) (JStr ''B8'')"
    by simp_all
  have "findOrCreateCustomer quietEngine billedStore anonymousOrder = Inl MissingEmail"
    by code_simp
  with failure_rolls_back [where E = quietEngine and s = billedStore and od = anonymousOrder
      and e = MissingEmail, THEN conjunct2, THEN conjunct1]
  have m: "orderTransaction quietEngine billedStore anonymousOrder = Inl MissingEmail"
    by blast
  have q: "orders (db (processOrder quietEngine itemOrder (runAt emptyStore)))
       = [\<lparr>oid = 1, bill_number = JStr ''B8'', order_number = JStr ''N8'', customerId = 1\<rparr>]"
    by code_simp
  from t undone m q show ?thesis by simp
qed

text \<open>
  C8. Each aggregate raises exactly one of the three counters by one and leaves the other
  two alone; at the end of a run started with the summary of a new job, the total of
  grouped orders is the number of aggregates and equals successes plus skips plus failures.
\<close>

theorem counters_partition:
  "((nSuccessful (processOrder E od st) = nSuccessful st + 1
      \<and> nSkipped (processOrder E od st) = nSkipped st
      \<and> nFailed (processOrder E od st) = nFailed st)
    \<or> (nSuccessful (processOrder E od st) = nSuccessful st
      \<and> nSkipped (processOrder E od st) = nSkipped st + 1
      \<and> nFailed (processOrder E od st) = nFailed st)
    \<or> (nSuccessful (processOrder E od st) = nSuccessful st
      \<and> nSkipped (processOrder E od st) = nSkipped st
      \<and> nFailed (processOrder E od st) = nFailed st + 1))
   \<and> totalProcessed (fst (importOrders E ws s)) = length (parseFileAndGroupOrders E ws)
   \<and> totalProcessed (fst (importOrders E ws s))
       = successfulInserts (fst (importOrders E ws s))
         + skippedDuplicates (fst (importOrders E ws s))
         + failedInserts (fst (importOrders E ws s))"
proof -
  let ?ods = "parseFileAndGroupOrders E ws"
  have j: "fst (importOrders E ws s) = job (processOrders E ?ods s initialSummary)"
    by (simp add: importOrders_def processOrderFile_def Let_def)
  from processOrders_counts [of E ?ods s initialSummary]
    processOrders_synced [of E ?ods s] processOrders_total [of E ?ods s initialSummary]
  have "totalProcessed (fst (importOrders E ws s)) = length ?ods
      \<and> totalProcessed (fst (importOrders E ws s))
       = successfulInserts (fst (importOrders E ws s))
         + skippedDuplicates (fst (importOrders E ws s))
         + failedInserts (fst (importOrders E ws s))"
    unfolding j by simp
  with processOrder_one_counter [of E od st] show ?thesis by blast
qed

theorem counters_partition_witness:
  "fst (importOrders quietEngine rerunSheet emptyStore)
     = \<lparr>totalProcessed = 2, successfulInserts = 1, failedInserts = 1, skippedDuplicates = 0\<rparr>
   \<and> length (parseFileAndGroupOrders quietEngine rerunSheet) = 2"
proof -
  have "fst (importOrders quietEngine rerunSheet emptyStore)
     = \<lparr>totalProcessed = 2, successfulInserts = 1, failedInserts = 1, skippedDuplicates = 0\<rparr>"
    by code_simp
  with counters_partition [of quietEngine itemOrder "runAt emptyStore" rerunSheet emptyStore]
  show ?thesis by simp
qed




section \<open>The reconciliation script: properties and the claim\<close>


lemma set_add_in: "x \<in> set xs \<Longrightarrow> set_add x xs = xs"
  by (simp add: set_add_def)

lemma set_add_notin: "x \<notin> set xs \<Longrightarrow> set_add x xs = xs @ [x]"
  by (simp add: set_add_def)

lemma filter_notin_snoc:
  "filter (\<lambda>y. y \<notin> set (xs @ [b])) D = filter (\<lambda>y. y \<noteq> b) (filter (\<lambda>y. y \<notin> set xs) D)"
  by (induction D) auto

lemma fold_set_add:
  "fold set_add xs acc = acc @ firsts (filter (\<lambda>x. x \<notin> set acc) xs)"
proof (induction xs arbitrary: acc)
  case Nil
  show ?case by simp
next
  case (Cons x xs)
  show ?case
  proof (cases "x \<in> set acc")
    case True
    then show ?thesis by (simp add: Cons.IH set_add_in)
  next
    case False
    have "firsts (filter (\<lambda>y. y \<notin> set (acc @ [x])) xs)
          = filter (\<lambda>y. y \<noteq> x) (firsts (filter (\<lambda>y. y \<notin> set acc) xs))"
      by (simp only: filter_notin_snoc firsts_filter [symmetric])
    with False show ?thesis by (simp add: Cons.IH set_add_notin)
  qed
qed

lemma new_Set_firsts: "new_Set xs = firsts xs"
  by (simp add: new_Set_def fold_set_add)

lemma sourceBills_snoc: "sourceBills (rs @ [r]) = sourceBills rs @ bill_of r"
  by (cases r) (auto simp: sourceBills_def bill_of_def recordBillNumber_def List.map_filter_def)

lemma audit_record_skip: "bill_of r = [] \<Longrightarrow> audit_record r a = a"
  by (auto simp: bill_of_def audit_record_def split: option.splits if_splits)

lemma audit_record_bill:
  assumes "bill_of r = [b]"
  shows "audit_record r a =
     (if b \<in> set (csvBillNumbers a) then a
      else if b \<in> set (importedDbBills a)
      then a\<lparr>csvBillNumbers := csvBillNumbers a @ [b], matched := matched a + 1,
              importedDbBills := filter (\<lambda>y. y \<noteq> b) (importedDbBills a)\<rparr>
      else a\<lparr>csvBillNumbers := csvBillNumbers a @ [b], missingInDb := missingInDb a @ [b]\<rparr>)"
  using assms
  by (auto simp: bill_of_def audit_record_def set_add_def set_delete_def Let_def
           split: option.splits if_splits)

lemma bill_of_cases: "bill_of r = [] \<or> (\<exists>b. bill_of r = [b])"
  by (auto simp: bill_of_def split: option.splits)

lemma audit_loop:
  "fold audit_record rs
     \<lparr>csvBillNumbers = [], importedDbBills = D, missingInDb = [], extraInDb = [], matched = 0\<rparr>
   = \<lparr>csvBillNumbers = firsts (sourceBills rs),
      importedDbBills = filter (\<lambda>b. b \<notin> set (sourceBills rs)) D,
      missingInDb = filter (\<lambda>b. b \<notin> set D) (firsts (sourceBills rs)),
      extraInDb = [],
      matched = length (filter (\<lambda>b. b \<in> set D) (firsts (sourceBills rs)))\<rparr>"
proof (induction rs rule: rev_induct)
  case Nil
  show ?case by (simp add: sourceBills_def List.map_filter_def)
next
  case (snoc r rs)
  let ?src = "sourceBills rs"
  from bill_of_cases [of r] show ?case
  proof
    assume "bill_of r = []"
    then show ?thesis by (simp add: snoc.IH sourceBills_snoc audit_record_skip)
  next
    assume "\<exists>b. bill_of r = [b]"
    then obtain b where b: "bill_of r = [b]" ..
    have rest: "filter (\<lambda>y. y \<notin> set (?src @ [b])) D
                = filter (\<lambda>y. y \<noteq> b) (filter (\<lambda>y. y \<notin> set ?src) D)"
      by (rule filter_notin_snoc)
    show ?thesis
    proof (cases "b \<in> set ?src")
      case True
      then have "b \<notin> set (filter (\<lambda>y. y \<notin> set ?src) D)" by simp
      then have "filter (\<lambda>y. y \<noteq> b) (filter (\<lambda>y. y \<notin> set ?src) D)
                 = filter (\<lambda>y. y \<notin> set ?src) D"
        by (rule filter_neq_id)
      with True rest show ?thesis
        by (simp add: snoc.IH sourceBills_snoc audit_record_bill [OF b] b firsts_snoc
              set_firsts del: filter_filter filter_append set_append)
    next
      case False
      show ?thesis
      proof (cases "b \<in> set D")
        case True
        with False rest show ?thesis
          by (simp add: snoc.IH sourceBills_snoc audit_record_bill [OF b] b firsts_snoc
                set_firsts del: filter_filter set_append)
      next
        case notD: False
        then have "b \<notin> set (filter (\<lambda>y. y \<notin> set ?src) D)" by simp
        then have "filter (\<lambda>y. y \<noteq> b) (filter (\<lambda>y. y \<notin> set ?src) D)
                   = filter (\<lambda>y. y \<notin> set ?src) D"
          by (rule filter_neq_id)
        with False notD rest show ?thesis
          by (simp add: snoc.IH sourceBills_snoc audit_record_bill [OF b] b firsts_snoc
                set_firsts del: filter_filter set_append)
      qed
    qed
  qed
qed

text \<open>
  C9. The audit classifies the first occurrence of each distinct trimmed, non-empty source
  bill number and ignores the later ones: it is counted as matched when the persisted bill
  numbers, trimmed, contain it (string equality), and listed as missing otherwise; the
  extra entries are the persisted bill numbers that no source entry equals. With A, B, C
  persisted and B, C, D in the source: 2 matched, D missing, A extra.
\<close>

theorem performDeltaAnalysis_spec:
  "performDeltaAnalysis (Some bills) (Some records) =
     Some \<lparr>csvBillNumbers = firsts (sourceBills records),
           importedDbBills =
             filter (\<lambda>b. b \<notin> set (sourceBills records)) (firsts (map js_trim bills)),
           missingInDb =
             filter (\<lambda>b. b \<notin> set (map js_trim bills)) (firsts (sourceBills records)),
           extraInDb =
             filter (\<lambda>b. b \<notin> set (sourceBills records)) (firsts (map js_trim bills)),
           matched =
             length (filter (\<lambda>b. b \<in> set (map js_trim bills)) (firsts (sourceBills records)))\<rparr>
   \<and> map_option (\<lambda>a. (matched a, missingInDb a, extraInDb a))
        (performDeltaAnalysis (Some [''A'', ''B'', ''C''])
           (Some [Some ''B'', Some ''C'', Some ''D''])) = Some (2, [''D''], [''A''])"
proof -
  have ex: "map_option (\<lambda>a. (matched a, missingInDb a, extraInDb a))
        (performDeltaAnalysis (Some [''A'', ''B'', ''C''])
           (Some [Some ''B'', Some ''C'', Some ''D''])) = Some (2, [''D''], [''A''])"
    by (simp add: performDeltaAnalysis_def getImportedBillNumbersFromDB_def new_Set_def
          audit_record_def recordBillNumber_def js_trim_def is_space_def set_add_def
          set_delete_def Let_def)
  have "performDeltaAnalysis (Some bills) (Some records) = Some \<lparr>csvBillNumbers = firsts (sourceBills records),
           importedDbBills =
             filter (\<lambda>b. b \<notin> set (sourceBills records)) (firsts (map js_trim bills)),
           missingInDb =
             filter (\<lambda>b. b \<notin> set (map js_trim bills)) (firsts (sourceBills records)),
           extraInDb =
             filter (\<lambda>b. b \<notin> set (sourceBills records)) (firsts (map js_trim bills)),
           matched =
             length (filter (\<lambda>b. b \<in> set (map js_trim bills)) (firsts (sourceBills records)))\<rparr>"
    by (simp add: performDeltaAnalysis_def getImportedBillNumbersFromDB_def new_Set_firsts
          audit_loop set_firsts Let_def)
  with ex show ?thesis by simp
qed

theorem performDeltaAnalysis_spec_witness:
  "map_option (\<lambda>a. (matched a, missingInDb a, extraInDb a))
        (performDeltaAnalysis (Some [''INV-1 '', ''INV-2'', ''INV-2'', ''INV-3''])
           (Some [Some '' INV-2'', None, Some ''INV-9'', Some '''', Some ''INV-2'', Some ''INV-9'', Some ''INV-1'']))
    = Some (2, [''INV-9''], [''INV-3''])"
  using performDeltaAnalysis_spec [of "[''INV-1 '', ''INV-2'', ''INV-2'', ''INV-3'']"
      "[Some '' INV-2'', None, Some ''INV-9'', Some '''', Some ''INV-2'', Some ''INV-9'', Some ''INV-1'']"]
  by (simp add: sourceBills_def List.map_filter_def js_trim_def is_space_def)

end
